theory Spec2Isabelle
  imports Main "HOL-Library.AList"
begin

section \<open>JavaScript values\<close>

text \<open>
  The values that flow through cute-dynamo: what a caller passes as data, primary key and
  sort key, what the configuration fields hold, and what an item's attributes hold.
  A number is an integer-valued double (\<open>Finite i\<close>, read as a double only for
  \<open>\<bar>i\<bar> \<le> 2^53 - 1\<close>, where a double prints as its plain decimal digits) or one of
  the three non-finite ones; a number with a fraction or an exponent, and the negative
  zero, are outside the model. A string is a list of 8-bit code units. An object is the
  list of its own properties in the order in which it enumerates them; a JavaScript
  object never has two properties of one name.
\<close>

datatype jsnum = Finite int | NaN | PosInfinity | NegInfinity

datatype jsval =
    JUndefined
  | JNull
  | JBool bool
  | JNum jsnum
  | JStr string
  | JArr "jsval list"
  | JObj "(string \<times> jsval) list"

type_synonym item = "(string \<times> jsval) list"

text \<open>
  What the code can throw. \<open>TypeError\<close> is the fault of reading a property of
  \<open>undefined\<close>, \<open>SyntaxError\<close> is what \<open>JSON.parse\<close> throws, \<open>Error\<close> is
  \<open>new Error(message)\<close>, \<open>ServiceException\<close> is a rejection that comes out of
  \<open>client.send\<close>. The last two are not JavaScript errors. \<open>Unmodelled\<close> is the
  answer of \<open>JSON_parse\<close> to a text that leaves the values above (a number that goes
  on with a fraction or an exponent, an escape of a code unit above 255): what
  \<open>JSON.parse\<close> does with such a text is not modelled. \<open>OutOfFuel\<close> is the parser's
  recursion bound; \<open>JSON_parse\<close> never returns it (lemma \<open>JSON_parse_fuel\<close>).
\<close>

datatype error =
    SyntaxError
  | TypeError
  | Error string
  | ServiceException string
  | OutOfFuel
  | Unmodelled

text \<open>ToBoolean: the falsy values are undefined, null, false, 0, NaN and the empty string.\<close>

fun truthy :: "jsval \<Rightarrow> bool" where
  "truthy JUndefined = False"
| "truthy JNull = False"
| "truthy (JBool b) = b"
| "truthy (JNum (Finite i)) = (i \<noteq> 0)"
| "truthy (JNum NaN) = False"
| "truthy (JNum PosInfinity) = True"
| "truthy (JNum NegInfinity) = True"
| "truthy (JStr s) = (s \<noteq> [])"
| "truthy (JArr xs) = True"
| "truthy (JObj ps) = True"

text \<open>\<open>a && b\<close> on values: the left operand when it is falsy, else the right one.\<close>

definition js_and :: "jsval \<Rightarrow> jsval \<Rightarrow> jsval" where
  "js_and a b = (if truthy a then b else a)"

section \<open>The JSON codec of the platform\<close>

text \<open>
  \<open>JSON.stringify(value)\<close> with no replacer and no indentation, and \<open>JSON.parse(text)\<close>
  with no reviver, on the values above. \<open>JSON_stringify\<close> returns \<open>None\<close> where
  JavaScript returns \<open>undefined\<close>. \<open>JSON_parse\<close> reads an integer literal as its
  exact value, also beyond the range in which JavaScript does.
\<close>

abbreviation dquote :: char where "dquote \<equiv> CHR 0x22"
abbreviation backslash :: char where "backslash \<equiv> CHR 0x5C"

definition digit_char :: "nat \<Rightarrow> char" where
  "digit_char d = char_of (48 + d)"

definition is_digit :: "char \<Rightarrow> bool" where
  "is_digit c = (48 \<le> (of_char c :: nat) \<and> (of_char c :: nat) \<le> 57)"

definition digit_val :: "char \<Rightarrow> nat" where
  "digit_val c = of_char c - 48"

function digits :: "nat \<Rightarrow> string" where
  "digits n = (if n < 10 then [digit_char n] else digits (n div 10) @ [digit_char (n mod 10)])"
  by pat_completeness auto
termination
  by (relation "measure id") auto

declare digits.simps [simp del]

definition Number_toString :: "jsnum \<Rightarrow> string" where
  "Number_toString x =
     (case x of
        Finite i \<Rightarrow> (if i < 0 then CHR ''-'' # digits (nat (- i)) else digits (nat i))
      | NaN \<Rightarrow> ''NaN''
      | PosInfinity \<Rightarrow> ''Infinity''
      | NegInfinity \<Rightarrow> ''-Infinity'')"

definition hexdigit :: "nat \<Rightarrow> char" where
  "hexdigit d = (if d < 10 then char_of (48 + d) else char_of (87 + d))"

definition hexval :: "char \<Rightarrow> nat option" where
  "hexval c =
     (let n = (of_char c :: nat) in
      if 48 \<le> n \<and> n \<le> 57 then Some (n - 48)
      else if 97 \<le> n \<and> n \<le> 102 then Some (n - 87)
      else if 65 \<le> n \<and> n \<le> 70 then Some (n - 55)
      else None)"

definition QuoteJSONChar :: "char \<Rightarrow> string" where
  "QuoteJSONChar c =
     (if c = CHR 0x08 then [backslash, CHR ''b'']
      else if c = CHR 0x09 then [backslash, CHR ''t'']
      else if c = CHR 0x0A then [backslash, CHR ''n'']
      else if c = CHR 0x0C then [backslash, CHR ''f'']
      else if c = CHR 0x0D then [backslash, CHR ''r'']
      else if c = dquote then [backslash, dquote]
      else if c = backslash then [backslash, backslash]
      else if (of_char c :: nat) < 32
        then [backslash, CHR ''u'', CHR ''0'', CHR ''0'',
              hexdigit (of_char c div 16), hexdigit (of_char c mod 16)]
      else [c])"

definition QuoteJSONString :: "string \<Rightarrow> string" where
  "QuoteJSONString s = dquote # concat (map QuoteJSONChar s) @ [dquote]"

fun join_comma :: "string list \<Rightarrow> string" where
  "join_comma [] = []"
| "join_comma [t] = t"
| "join_comma (t # u # ts) = t @ CHR '','' # join_comma (u # ts)"

fun JSON_stringify :: "jsval \<Rightarrow> string option"
  and SerializeJSONArray :: "jsval list \<Rightarrow> string list"
  and SerializeJSONObject :: "(string \<times> jsval) list \<Rightarrow> string list"
where
  "JSON_stringify JUndefined = None"
| "JSON_stringify JNull = Some ''null''"
| "JSON_stringify (JBool b) = Some (if b then ''true'' else ''false'')"
| "JSON_stringify (JNum x) =
     (case x of Finite i \<Rightarrow> Some (Number_toString x) | _ \<Rightarrow> Some ''null'')"
| "JSON_stringify (JStr s) = Some (QuoteJSONString s)"
| "JSON_stringify (JArr xs) = Some (CHR ''['' # join_comma (SerializeJSONArray xs) @ '']'')"
| "JSON_stringify (JObj ps) = Some (CHR ''{'' # join_comma (SerializeJSONObject ps) @ ''}'')"
| "SerializeJSONArray [] = []"
| "SerializeJSONArray (x # xs) =
     (case JSON_stringify x of None \<Rightarrow> ''null'' | Some t \<Rightarrow> t) # SerializeJSONArray xs"
| "SerializeJSONObject [] = []"
| "SerializeJSONObject (p # ps) =
     (case JSON_stringify (snd p) of
        None \<Rightarrow> SerializeJSONObject ps
      | Some t \<Rightarrow> (QuoteJSONString (fst p) @ CHR '':'' # t) # SerializeJSONObject ps)"


definition is_ws :: "char \<Rightarrow> bool" where
  "is_ws c = (c = CHR 0x20 \<or> c = CHR 0x09 \<or> c = CHR 0x0A \<or> c = CHR 0x0D)"

fun skip_ws :: "string \<Rightarrow> string" where
  "skip_ws [] = []"
| "skip_ws (c # cs) = (if is_ws c then skip_ws cs else c # cs)"

fun strip_prefix :: "string \<Rightarrow> string \<Rightarrow> string option" where
  "strip_prefix [] s = Some s"
| "strip_prefix (p # ps) [] = None"
| "strip_prefix (p # ps) (c # cs) = (if p = c then strip_prefix ps cs else None)"

definition unescape :: "char \<Rightarrow> char option" where
  "unescape e =
     (if e = dquote then Some dquote
      else if e = backslash then Some backslash
      else if e = CHR ''/'' then Some CHR ''/''
      else if e = CHR ''b'' then Some (CHR 0x08)
      else if e = CHR ''f'' then Some (CHR 0x0C)
      else if e = CHR ''n'' then Some (CHR 0x0A)
      else if e = CHR ''r'' then Some (CHR 0x0D)
      else if e = CHR ''t'' then Some (CHR 0x09)
      else None)"

definition hex4 :: "char \<Rightarrow> char \<Rightarrow> char \<Rightarrow> char \<Rightarrow> nat option" where
  "hex4 a b c d =
     (case (hexval a, hexval b, hexval c, hexval d) of
        (Some w, Some x, Some y, Some z) \<Rightarrow> Some (((w * 16 + x) * 16 + y) * 16 + z)
      | _ \<Rightarrow> None)"

definition cons_char :: "char \<Rightarrow> error + (string \<times> string) \<Rightarrow> error + (string \<times> string)" where
  "cons_char c r = (case r of Inl e \<Rightarrow> Inl e | Inr (s, rest) \<Rightarrow> Inr (c # s, rest))"

fun parse_chars :: "string \<Rightarrow> error + (string \<times> string)" where
  "parse_chars [] = Inl SyntaxError"
| "parse_chars (c # cs) =
     (if c = dquote then Inr ([], cs)
      else if c = backslash then
        (case cs of
           [] \<Rightarrow> Inl SyntaxError
         | e # cs1 \<Rightarrow>
             if e = CHR ''u'' then
               (case cs1 of
                  h1 # h2 # h3 # h4 # cs2 \<Rightarrow>
                    (case hex4 h1 h2 h3 h4 of
                       None \<Rightarrow> Inl SyntaxError
                     | Some n \<Rightarrow> if n < 256 then cons_char (char_of n) (parse_chars cs2)
                                else Inl Unmodelled)
                | _ \<Rightarrow> Inl SyntaxError)
             else
               (case unescape e of
                  None \<Rightarrow> Inl SyntaxError
                | Some ch \<Rightarrow> cons_char ch (parse_chars cs1)))
      else if (of_char c :: nat) < 32 then Inl SyntaxError
      else cons_char c (parse_chars cs))"

definition nat_of_digits :: "string \<Rightarrow> nat" where
  "nat_of_digits ds = foldl (\<lambda>n c. 10 * n + digit_val c) 0 ds"

definition parse_number :: "string \<Rightarrow> error + (jsval \<times> string)" where
  "parse_number s =
     (let (neg, s1) = (case s of c # cs \<Rightarrow> if c = CHR ''-'' then (True, cs) else (False, s)
                                | [] \<Rightarrow> (False, s));
          ds = takeWhile is_digit s1;
          rest = dropWhile is_digit s1
      in if ds = [] then Inl SyntaxError
         else if hd ds = CHR ''0'' \<and> length ds > 1 then Inl SyntaxError
         else if rest \<noteq> [] \<and> hd rest \<in> {CHR ''.'', CHR ''e'', CHR ''E''} then Inl Unmodelled
         else Inr (JNum (Finite (if neg then - int (nat_of_digits ds) else int (nat_of_digits ds))),
                   rest))"

text \<open>
  An object enumerates its properties in a fixed order: first those whose name is an
  array index (the decimal numeral of an integer below \<open>2^32 - 1\<close>), by ascending
  index, then the others in the order of their creation; \<open>property_order\<close> says that
  a list is in that order. \<open>CreateDataProperty\<close> is how \<open>JSON.parse\<close> adds a member
  to the object it builds: a name the object already has keeps its place and takes the
  new value.
\<close>

definition is_array_index :: "string \<Rightarrow> bool" where
  "is_array_index k =
     (k \<noteq> [] \<and> list_all is_digit k \<and> (hd k = CHR ''0'' \<longrightarrow> length k = 1) \<and>
      int (nat_of_digits k) < 4294967295)"

fun insert_index :: "string \<Rightarrow> jsval \<Rightarrow> (string \<times> jsval) list \<Rightarrow> (string \<times> jsval) list" where
  "insert_index k v [] = [(k, v)]"
| "insert_index k v (p # ps) =
     (if is_array_index (fst p) \<and> nat_of_digits (fst p) < nat_of_digits k
      then p # insert_index k v ps
      else (k, v) # p # ps)"

definition CreateDataProperty ::
  "(string \<times> jsval) list \<Rightarrow> string \<Rightarrow> jsval \<Rightarrow> (string \<times> jsval) list" where
  "CreateDataProperty obj k v =
     (if k \<in> fst ` set obj then AList.update k v obj
      else if is_array_index k then insert_index k v obj
      else obj @ [(k, v)])"

fun property_order :: "(string \<times> jsval) list \<Rightarrow> bool" where
  "property_order [] = True"
| "property_order [p] = True"
| "property_order (p # q # ps) =
     ((is_array_index (fst q) \<longrightarrow>
         is_array_index (fst p) \<and> nat_of_digits (fst p) < nat_of_digits (fst q)) \<and>
      property_order (q # ps))"

fun parse_value :: "nat \<Rightarrow> string \<Rightarrow> error + (jsval \<times> string)"
  and parse_elements :: "nat \<Rightarrow> string \<Rightarrow> error + (jsval list \<times> string)"
  and parse_members :: "nat \<Rightarrow> string \<Rightarrow> error + ((string \<times> jsval) list \<times> string)"
where
  "parse_value 0 s = Inl OutOfFuel"
| "parse_value (Suc n) s =
     (case skip_ws s of
        [] \<Rightarrow> Inl SyntaxError
      | c # cs \<Rightarrow>
          if c = CHR ''n'' then
            (case strip_prefix ''ull'' cs of None \<Rightarrow> Inl SyntaxError | Some r \<Rightarrow> Inr (JNull, r))
          else if c = CHR ''t'' then
            (case strip_prefix ''rue'' cs of None \<Rightarrow> Inl SyntaxError | Some r \<Rightarrow> Inr (JBool True, r))
          else if c = CHR ''f'' then
            (case strip_prefix ''alse'' cs of None \<Rightarrow> Inl SyntaxError | Some r \<Rightarrow> Inr (JBool False, r))
          else if c = dquote then
            (case parse_chars cs of Inl e \<Rightarrow> Inl e | Inr (str, r) \<Rightarrow> Inr (JStr str, r))
          else if c = CHR ''['' then
            (case skip_ws cs of
               [] \<Rightarrow> Inl SyntaxError
             | d # r \<Rightarrow>
                 if d = CHR '']'' then Inr (JArr [], r)
                 else (case parse_elements n cs of Inl e \<Rightarrow> Inl e | Inr (xs, r1) \<Rightarrow> Inr (JArr xs, r1)))
          else if c = CHR ''{'' then
            (case skip_ws cs of
               [] \<Rightarrow> Inl SyntaxError
             | d # r \<Rightarrow>
                 if d = CHR ''}'' then Inr (JObj [], r)
                 else (case parse_members n cs of
                         Inl e \<Rightarrow> Inl e
                       | Inr (ps, r1) \<Rightarrow> Inr (JObj (foldl (\<lambda>obj (k, v). CreateDataProperty obj k v) [] ps), r1)))
          else parse_number (c # cs))"
| "parse_elements 0 s = Inl OutOfFuel"
| "parse_elements (Suc n) s =
     (case parse_value n s of
        Inl e \<Rightarrow> Inl e
      | Inr (v, r) \<Rightarrow>
          (case skip_ws r of
             [] \<Rightarrow> Inl SyntaxError
           | c # r1 \<Rightarrow>
               if c = CHR '','' then
                 (case parse_elements n r1 of Inl e \<Rightarrow> Inl e | Inr (vs, r2) \<Rightarrow> Inr (v # vs, r2))
               else if c = CHR '']'' then Inr ([v], r1)
               else Inl SyntaxError))"
| "parse_members 0 s = Inl OutOfFuel"
| "parse_members (Suc n) s =
     (case skip_ws s of
        [] \<Rightarrow> Inl SyntaxError
      | q # s1 \<Rightarrow>
          if q \<noteq> dquote then Inl SyntaxError
          else
            (case parse_chars s1 of
               Inl e \<Rightarrow> Inl e
             | Inr (k, s2) \<Rightarrow>
                 (case skip_ws s2 of
                    [] \<Rightarrow> Inl SyntaxError
                  | colon # s3 \<Rightarrow>
                      if colon \<noteq> CHR '':'' then Inl SyntaxError
                      else
                        (case parse_value n s3 of
                           Inl e \<Rightarrow> Inl e
                         | Inr (v, r) \<Rightarrow>
                             (case skip_ws r of
                                [] \<Rightarrow> Inl SyntaxError
                              | c # r1 \<Rightarrow>
                                  if c = CHR '','' then
                                    (case parse_members n r1 of
                                       Inl e \<Rightarrow> Inl e
                                     | Inr (ps, r2) \<Rightarrow> Inr ((k, v) # ps, r2))
                                  else if c = CHR ''}'' then Inr ([(k, v)], r1)
                                  else Inl SyntaxError)))))"

definition JSON_parse :: "string \<Rightarrow> error + jsval" where
  "JSON_parse text =
     (case parse_value (2 * length text + 1) text of
        Inl e \<Rightarrow> Inl e
      | Inr (v, rest) \<Rightarrow> if skip_ws rest = [] then Inr v else Inl SyntaxError)"



text \<open>
  What a value becomes on its way through the codec: an \<open>undefined\<close> array element and
  a non-finite number become \<open>null\<close>, a property whose value is \<open>undefined\<close> is left
  out.
\<close>

fun json_clone :: "jsval \<Rightarrow> jsval"
  and json_clone_elements :: "jsval list \<Rightarrow> jsval list"
  and json_clone_members :: "(string \<times> jsval) list \<Rightarrow> (string \<times> jsval) list"
where
  "json_clone JUndefined = JUndefined"
| "json_clone JNull = JNull"
| "json_clone (JBool b) = JBool b"
| "json_clone (JNum x) = (case x of Finite i \<Rightarrow> JNum x | _ \<Rightarrow> JNull)"
| "json_clone (JStr s) = JStr s"
| "json_clone (JArr xs) = JArr (json_clone_elements xs)"
| "json_clone (JObj ps) = JObj (foldl (\<lambda>obj (k, v). CreateDataProperty obj k v) [] (json_clone_members ps))"
| "json_clone_elements [] = []"
| "json_clone_elements (x # xs) =
     (if x = JUndefined then JNull else json_clone x) # json_clone_elements xs"
| "json_clone_members [] = []"
| "json_clone_members (p # ps) =
     (if snd p = JUndefined then json_clone_members ps
      else (fst p, json_clone (snd p)) # json_clone_members ps)"

text \<open>
  The values the codec carries without loss: no \<open>undefined\<close> and no non-finite number
  anywhere inside, integers in the range where a double holds every integer, and objects
  whose property names are distinct and in enumeration order (as every JavaScript
  object's are).
\<close>

fun representable :: "jsval \<Rightarrow> bool"
  and representable_elements :: "jsval list \<Rightarrow> bool"
  and representable_members :: "(string \<times> jsval) list \<Rightarrow> bool"
where
  "representable JUndefined = False"
| "representable JNull = True"
| "representable (JBool b) = True"
| "representable (JNum x) =
     (case x of Finite i \<Rightarrow> - 9007199254740991 \<le> i \<and> i \<le> 9007199254740991 | _ \<Rightarrow> False)"
| "representable (JStr s) = True"
| "representable (JArr xs) = representable_elements xs"
| "representable (JObj ps) =
     (distinct (map fst ps) \<and> property_order ps \<and> representable_members ps)"
| "representable_elements [] = True"
| "representable_elements (x # xs) = (representable x \<and> representable_elements xs)"
| "representable_members [] = True"
| "representable_members (p # ps) = (representable (snd p) \<and> representable_members ps)"

text \<open>
  ToString, which \<open>JSON.parse\<close> applies to an argument that is not a string. An array
  joins its elements with commas, \<open>undefined\<close> and \<open>null\<close> elements as the empty string.
\<close>

fun ToString :: "jsval \<Rightarrow> string"
  and Array_join :: "jsval list \<Rightarrow> string list"
where
  "ToString JUndefined = ''undefined''"
| "ToString JNull = ''null''"
| "ToString (JBool b) = (if b then ''true'' else ''false'')"
| "ToString (JNum x) = Number_toString x"
| "ToString (JStr s) = s"
| "ToString (JArr xs) = join_comma (Array_join xs)"
| "ToString (JObj ps) = ''[object Object]''"
| "Array_join [] = []"
| "Array_join (x # xs) =
     (if x = JUndefined \<or> x = JNull then [] else ToString x) # Array_join xs"

text \<open>
  Reading a property of an object (\<open>undefined\<close> when it has none of that name), and the
  properties an object literal takes from a spread operand \<open>...v\<close>: the own properties
  of an object, the indexed elements of an array or a string, nothing from any other
  value.
\<close>

definition property :: "item \<Rightarrow> string \<Rightarrow> jsval" where
  "property obj name = (case map_of obj name of None \<Rightarrow> JUndefined | Some v \<Rightarrow> v)"

fun spread :: "jsval \<Rightarrow> item" where
  "spread (JObj ps) = ps"
| "spread (JArr xs) = zip (map digits [0..<length xs]) xs"
| "spread (JStr s) = zip (map digits [0..<length s]) (map (\<lambda>c. JStr [c]) s)"
| "spread v = []"

section \<open>cute-dynamo\<close>

subsection \<open>The process and the external service\<close>

text \<open>
  \<open>process.env\<close> maps a variable name to its string; reading an unset variable gives
  \<open>undefined\<close>.
\<close>

type_synonym environment = "string \<rightharpoonup> string"

definition process_env :: "environment \<Rightarrow> string \<Rightarrow> jsval" where
  "process_env e name = (case e name of None \<Rightarrow> JUndefined | Some s \<Rightarrow> JStr s)"

text \<open>
  The configuration object that \<open>init\<close> and the two client constructors destructure; a
  field the caller leaves out is \<open>undefined\<close>.
\<close>

record options =
  region :: jsval
  identityPoolId :: jsval
  accessKeyId :: jsval
  secretAccessKey :: jsval

text \<open>
  The two shapes of \<open>credentials\<close>: the provider that \<open>fromCognitoIdentityPool\<close> returns
  for \<open>{client: new CognitoIdentityClient({region}), identityPoolId}\<close>, as the region
  and the pool id it was made from, and the literal \<open>{accessKeyId, secretAccessKey}\<close>.
\<close>

datatype credentials =
    fromCognitoIdentityPool jsval jsval
  | StaticCredentials jsval jsval

text \<open>
  \<open>new DynamoDBClient({region, credentials})\<close>, with the region first, and
  \<open>DynamoDBDocumentClient.from(client)\<close>.
\<close>

datatype DynamoDBClient = DynamoDBClient jsval credentials

datatype DynamoDBDocumentClient = DocumentClient_from DynamoDBClient

text \<open>
  The commands of \<open>@aws-sdk/lib-dynamodb\<close> that the code constructs, with the fields it
  sets, in the order it writes them; \<open>TableName\<close> always comes first.
\<close>

datatype command =
    GetCommand jsval item
  | PutCommand jsval item
  | UpdateCommand jsval item jsval jsval
  | DeleteCommand jsval item
  | QueryCommand jsval jsval jsval
  | ScanCommand jsval jsval jsval

text \<open>
  What \<open>client.send\<close> resolves to, as far as the code reads it: \<open>Item\<close> (absent when the
  lookup found nothing) and, for a query or a scan, \<open>Items\<close>.
\<close>

record response =
  Item :: "item option"
  Items :: "item list option"

text \<open>
  \<open>client.send(command)\<close> is the external service: it answers with a response or
  rejects with an error, and may change the service's state \<open>'w\<close>. The code is
  modelled for every such service.
\<close>

type_synonym 'w service =
  "DynamoDBDocumentClient \<Rightarrow> command \<Rightarrow> 'w \<Rightarrow> (error + response) \<times> 'w"

text \<open>
  The state of the running program: the module's \<open>let client;\<close> (\<open>None\<close> until \<open>init\<close>
  assigns it), \<open>process.env\<close>, and the state of the external service.
\<close>

record 'w process =
  client :: "DynamoDBDocumentClient option"
  env :: environment
  world :: 'w

text \<open>
  \<open>await client.send(command)\<close> on a client that may still be \<open>undefined\<close>: reading
  \<open>send\<close> of \<open>undefined\<close> throws a \<open>TypeError\<close> before anything reaches the service.
\<close>

definition client_send ::
  "'w service \<Rightarrow> DynamoDBDocumentClient option \<Rightarrow> command \<Rightarrow> 'w process
   \<Rightarrow> (error + response) \<times> 'w process" where
  "client_send send cl cmd st =
     (case cl of
        None \<Rightarrow> (Inl TypeError, st)
      | Some c \<Rightarrow> (case send c cmd (world st) of (r, w) \<Rightarrow> (r, st\<lparr>world := w\<rparr>)))"

subsection \<open>Initialisation\<close>

text \<open>
  A destructuring default \<open>field = d\<close> applies exactly when the field is \<open>undefined\<close>.
  The dynamic imports of the SDK modules, here and in \<open>get\<close> and \<open>put\<close>, are taken
  to succeed.
\<close>

definition default_param :: "jsval \<Rightarrow> jsval \<Rightarrow> jsval" where
  "default_param v d = (if v = JUndefined then d else v)"

definition init :: "options \<Rightarrow> 'w process \<Rightarrow> (error + unit) \<times> 'w process" where
  "init opts st =
     (let region' = default_param (region opts) (process_env (env st) ''AWS_REGION'');
          identityPoolId' =
            default_param (identityPoolId opts) (process_env (env st) ''AWS_IDENTITY_POOL_ID'');
          accessKeyId' =
            default_param (accessKeyId opts) (process_env (env st) ''AWS_ACCESS_KEY_ID'');
          secretAccessKey' =
            default_param (secretAccessKey opts) (process_env (env st) ''AWS_SECRET_ACCESS_KEY'')
      in if truthy identityPoolId' then
           (Inr (), st\<lparr>client := Some (DocumentClient_from
              (DynamoDBClient region' (fromCognitoIdentityPool region' identityPoolId')))\<rparr>)
         else if truthy (js_and accessKeyId' secretAccessKey') then
           (Inr (), st\<lparr>client := Some (DocumentClient_from
              (DynamoDBClient region' (StaticCredentials accessKeyId' secretAccessKey')))\<rparr>)
         else (Inl (Error ''Insufficient credentials provided''), st))"

text \<open>The constructor of \<open>src/index.js\<close>: no defaults, and it returns the plain client.\<close>

definition createDynamoDBClient :: "options \<Rightarrow> error + DynamoDBClient" where
  "createDynamoDBClient opts =
     (if truthy (identityPoolId opts) then
        Inr (DynamoDBClient (region opts)
               (fromCognitoIdentityPool (region opts) (identityPoolId opts)))
      else if truthy (js_and (accessKeyId opts) (secretAccessKey opts)) then
        Inr (DynamoDBClient (region opts)
               (StaticCredentials (accessKeyId opts) (secretAccessKey opts)))
      else Inl (Error ''Insufficient credentials provided''))"

text \<open>The constructor of the utility module: the same, wrapped as a document client.\<close>

definition createDynamoDBDocumentClient :: "options \<Rightarrow> error + DynamoDBDocumentClient" where
  "createDynamoDBDocumentClient opts =
     (if truthy (identityPoolId opts) then
        Inr (DocumentClient_from (DynamoDBClient (region opts)
               (fromCognitoIdentityPool (region opts) (identityPoolId opts))))
      else if truthy (js_and (accessKeyId opts) (secretAccessKey opts)) then
        Inr (DocumentClient_from (DynamoDBClient (region opts)
               (StaticCredentials (accessKeyId opts) (secretAccessKey opts))))
      else Inl (Error ''Insufficient credentials provided''))"

subsection \<open>get and put\<close>

text \<open>The object literal \<open>{PK: pk, ...(sk && {SK: sk})}\<close> that \<open>get\<close> binds to \<open>key\<close>.\<close>

definition get_key :: "jsval \<Rightarrow> jsval \<Rightarrow> item" where
  "get_key pk sk = (''PK'', pk) # spread (js_and sk (JObj [(''SK'', sk)]))"

text \<open>
  \<open>get(pk, sk)\<close>; a call without the second argument is \<open>get pk JUndefined\<close>. The result
  is the item as an object, or \<open>null\<close>.
\<close>

definition get ::
  "'w service \<Rightarrow> jsval \<Rightarrow> jsval \<Rightarrow> 'w process \<Rightarrow> (error + jsval) \<times> 'w process" where
  "get send pk sk st =
     (let key = get_key pk sk in
      case client_send send (client st)
             (GetCommand (process_env (env st) ''DYNAMODB_TABLE'') key) st of
        (Inl e, st') \<Rightarrow> (Inl e, st')
      | (Inr response, st') \<Rightarrow>
          (case Item response of
             None \<Rightarrow> (Inr JNull, st')
           | Some it \<Rightarrow>
               if truthy (property it ''JSON'') then
                 (case JSON_parse (ToString (property it ''JSON'')) of
                    Inl e \<Rightarrow> (Inl e, st')
                  | Inr v \<Rightarrow> (Inr (JObj (AList.update ''JSON'' v it)), st'))
               else (Inr (JObj it), st')))"

text \<open>
  The object literal \<open>{PK: pk, ...(sk && {SK: sk}), JSON: JSON.stringify(data)}\<close> that
  \<open>put\<close> binds to \<open>item\<close>.
\<close>

definition put_item :: "jsval \<Rightarrow> jsval \<Rightarrow> jsval \<Rightarrow> item" where
  "put_item data pk sk =
     (''PK'', pk) # spread (js_and sk (JObj [(''SK'', sk)]))
       @ [(''JSON'', (case JSON_stringify data of None \<Rightarrow> JUndefined | Some t \<Rightarrow> JStr t))]"

definition put ::
  "'w service \<Rightarrow> jsval \<Rightarrow> jsval \<Rightarrow> jsval \<Rightarrow> 'w process \<Rightarrow> (error + response) \<times> 'w process" where
  "put send data pk sk st =
     (let item = put_item data pk sk in
      client_send send (client st) (PutCommand (process_env (env st) ''DYNAMODB_TABLE'') item) st)"

subsection \<open>The utility module\<close>

text \<open>
  Its functions take the client as their first argument (\<open>None\<close> when the caller passes
  \<open>undefined\<close>) and return what \<open>client.send\<close> resolves to. Its \<open>put\<close> and \<open>get\<close>
  share their names with the two functions above and are \<open>util_put\<close> and \<open>util_get\<close>
  here.
\<close>

definition util_put ::
  "'w service \<Rightarrow> DynamoDBDocumentClient option \<Rightarrow> item \<Rightarrow> 'w process
   \<Rightarrow> (error + response) \<times> 'w process" where
  "util_put send cl item st =
     client_send send cl (PutCommand (process_env (env st) ''DYNAMODB_TABLE'') item) st"

definition util_get ::
  "'w service \<Rightarrow> DynamoDBDocumentClient option \<Rightarrow> item \<Rightarrow> 'w process
   \<Rightarrow> (error + response) \<times> 'w process" where
  "util_get send cl key st =
     client_send send cl (GetCommand (process_env (env st) ''DYNAMODB_TABLE'') key) st"

definition updateItem ::
  "'w service \<Rightarrow> DynamoDBDocumentClient option \<Rightarrow> item \<Rightarrow> jsval \<Rightarrow> jsval \<Rightarrow> 'w process
   \<Rightarrow> (error + response) \<times> 'w process" where
  "updateItem send cl key updateExpression expressionAttributeValues st =
     client_send send cl
       (UpdateCommand (process_env (env st) ''DYNAMODB_TABLE'') key updateExpression
          expressionAttributeValues) st"

definition deleteItem ::
  "'w service \<Rightarrow> DynamoDBDocumentClient option \<Rightarrow> item \<Rightarrow> 'w process
   \<Rightarrow> (error + response) \<times> 'w process" where
  "deleteItem send cl key st =
     client_send send cl (DeleteCommand (process_env (env st) ''DYNAMODB_TABLE'') key) st"

definition queryItems ::
  "'w service \<Rightarrow> DynamoDBDocumentClient option \<Rightarrow> jsval \<Rightarrow> jsval \<Rightarrow> 'w process
   \<Rightarrow> (error + response) \<times> 'w process" where
  "queryItems send cl keyConditionExpression expressionAttributeValues st =
     client_send send cl
       (QueryCommand (process_env (env st) ''DYNAMODB_TABLE'') keyConditionExpression
          expressionAttributeValues) st"

definition scanTable ::
  "'w service \<Rightarrow> DynamoDBDocumentClient option \<Rightarrow> jsval \<Rightarrow> jsval \<Rightarrow> 'w process
   \<Rightarrow> (error + response) \<times> 'w process" where
  "scanTable send cl filterExpression expressionAttributeValues st =
     client_send send cl
       (ScanCommand (process_env (env st) ''DYNAMODB_TABLE'') filterExpression
          expressionAttributeValues) st"

subsection \<open>A reference store\<close>

text \<open>
  The external store is not part of the repository; the functions above are modelled for
  every service. Where a property needs a store that keeps what is written, it is stated
  on the one below: for every table name, a map from key objects to the items stored
  under them.
\<close>

type_synonym tables = "jsval \<Rightarrow> item \<rightharpoonup> item"

text \<open>
  Modelled from the spec: the key of an item in the external store. The spec identifies an
  item by its \<open>PK\<close> attribute and, when it has one, its \<open>SK\<close> attribute.
\<close>

definition key_attributes :: "item \<Rightarrow> item" where
  "key_attributes it = filter (\<lambda>p. fst p = ''PK'' \<or> fst p = ''SK'') it"

text \<open>
  Modelled from the spec: the external store behind \<open>client.send\<close>. The spec gives its
  contract as \<open>getItem(table, key) -> item?\<close>, \<open>putItem(table, item) -> ack\<close> and
  \<open>deleteItem(table, key) -> ack\<close>, a write to an existing key replacing the whole
  item. The spec does not give the expression languages of update, query and scan, and
  this store rejects those commands.
\<close>

fun table_send :: "tables service" where
  "table_send c (GetCommand t key) db = (Inr \<lparr>Item = db t key, Items = None\<rparr>, db)"
| "table_send c (PutCommand t it) db =
     (Inr \<lparr>Item = None, Items = None\<rparr>, db(t := (db t)(key_attributes it \<mapsto> it)))"
| "table_send c (DeleteCommand t key) db =
     (Inr \<lparr>Item = None, Items = None\<rparr>, db(t := (db t)(key := None)))"
| "table_send c (UpdateCommand t key ue vs) db =
     (Inl (ServiceException ''expression not modelled''), db)"
| "table_send c (QueryCommand t ke vs) db =
     (Inl (ServiceException ''expression not modelled''), db)"
| "table_send c (ScanCommand t fe vs) db =
     (Inl (ServiceException ''expression not modelled''), db)"

section \<open>Notions used in the proofs about the codec\<close>

text \<open>
  Where a printed value may stop: at the end of the text or before a comma or a closing
  bracket. \<open>roundtrips v\<close> says that the parser, given enough fuel, reads the text of
  \<open>v\<close> back as \<open>json_clone v\<close> and leaves what follows it.
\<close>

definition value_end :: "string \<Rightarrow> bool" where
  "value_end rest =
     (rest = [] \<or> hd rest = CHR '','' \<or> hd rest = CHR '']'' \<or> hd rest = CHR ''}'')"

definition roundtrips :: "jsval \<Rightarrow> bool" where
  "roundtrips v =
     (\<forall>n rest t. JSON_stringify v = Some t \<longrightarrow> value_end rest \<longrightarrow> 2 * length t + 1 \<le> n
        \<longrightarrow> parse_value n (t @ rest) = Inr (json_clone v, rest))"

definition elem_text :: "jsval \<Rightarrow> string" where
  "elem_text x = (case JSON_stringify x of None \<Rightarrow> ''null'' | Some t \<Rightarrow> t)"

definition elem_clone :: "jsval \<Rightarrow> jsval" where
  "elem_clone x = (if x = JUndefined then JNull else json_clone x)"

section \<open>The codec: printing and parsing\<close>

lemma digits_simps1: "n < 10 \<Longrightarrow> digits n = [digit_char n]"
  by (subst digits.simps) simp

lemma digits_simps2: "\<not> n < 10 \<Longrightarrow> digits n = digits (n div 10) @ [digit_char (n mod 10)]"
  by (subst digits.simps) simp

lemma of_char_digit_char: "d < 10 \<Longrightarrow> (of_char (digit_char d) :: nat) = 48 + d"
  by (simp add: digit_char_def)

lemma is_digit_digit_char: "d < 10 \<Longrightarrow> is_digit (digit_char d)"
  by (simp add: is_digit_def of_char_digit_char)

lemma digit_val_digit_char: "d < 10 \<Longrightarrow> digit_val (digit_char d) = d"
  by (simp add: digit_val_def of_char_digit_char)

lemma digits_all_digit: "\<forall>c \<in> set (digits n). is_digit c"
proof (induction n rule: digits.induct)
  case (1 n)
  show ?case
  proof (cases "n < 10")
    case True
    then show ?thesis by (simp add: digits_simps1 is_digit_digit_char)
  next
    case False
    with 1 show ?thesis by (simp add: digits_simps2 is_digit_digit_char)
  qed
qed

lemma digits_nonempty: "digits n \<noteq> []"
  by (subst digits.simps) simp

lemma nat_of_digits_snoc: "nat_of_digits (ds @ [c]) = 10 * nat_of_digits ds + digit_val c"
  by (simp add: nat_of_digits_def)

lemma nat_of_digits_digits: "nat_of_digits (digits n) = n"
proof (induction n rule: digits.induct)
  case (1 n)
  show ?case
  proof (cases "n < 10")
    case True
    then show ?thesis by (simp add: digits_simps1 nat_of_digits_def digit_val_digit_char)
  next
    case False
    with 1 show ?thesis
      by (simp add: digits_simps2 nat_of_digits_snoc digit_val_digit_char)
  qed
qed

lemma digit_char_zero: "d < 10 \<Longrightarrow> digit_char d = CHR ''0'' \<longleftrightarrow> d = 0"
proof
  assume d: "d < 10" and "digit_char d = CHR ''0''"
  then have "(of_char (digit_char d) :: nat) = of_char CHR ''0''" by simp
  with d show "d = 0" by (simp add: of_char_digit_char)
next
  assume "d = 0" then show "digit_char d = CHR ''0''" by (simp add: digit_char_def) code_simp
qed

lemma hd_digits_zero: "hd (digits n) = CHR ''0'' \<Longrightarrow> n = 0"
proof (induction n rule: digits.induct)
  case (1 n)
  show ?case
  proof (cases "n < 10")
    case True
    with 1(2) show ?thesis by (simp add: digits_simps1 digit_char_zero)
  next
    case False
    with 1(2) have "hd (digits (n div 10)) = CHR ''0''"
      by (simp add: digits_simps2 digits_nonempty)
    with 1(1) False have "n div 10 = 0" by simp
    with False show ?thesis by simp
  qed
qed

lemma length_digits_zero: "length (digits 0) = 1"
  by (simp add: digits_simps1)


lemma value_end_not_digit: "value_end rest \<Longrightarrow> rest = [] \<or> \<not> is_digit (hd rest)"
  by (auto simp: value_end_def is_digit_def)

lemma value_end_not_frac: "value_end rest \<Longrightarrow> rest \<noteq> [] \<Longrightarrow> hd rest \<notin> {CHR ''.'', CHR ''e'', CHR ''E''}"
  by (auto simp: value_end_def)

lemma takeWhile_digits: "rest = [] \<or> \<not> is_digit (hd rest) \<Longrightarrow> takeWhile is_digit (digits n @ rest) = digits n"
  using digits_all_digit [of n] by (cases rest) (auto simp: takeWhile_append2)

lemma dropWhile_digits: "rest = [] \<or> \<not> is_digit (hd rest) \<Longrightarrow> dropWhile is_digit (digits n @ rest) = rest"
  using digits_all_digit [of n] by (cases rest) (auto simp: dropWhile_append2)

lemma digits_leading: "\<not> (hd (digits n) = CHR ''0'' \<and> 1 < length (digits n))"
  using hd_digits_zero [of n] length_digits_zero by auto

lemma hd_digits_not_minus: "hd (digits n) \<noteq> CHR ''-''"
proof -
  have "hd (digits n) \<in> set (digits n)" by (simp add: digits_nonempty)
  then have "is_digit (hd (digits n))" using digits_all_digit by blast
  then show ?thesis by (auto simp: is_digit_def)
qed

lemma parse_number_nonneg:
  assumes "value_end rest"
  shows "parse_number (digits n @ rest) = Inr (JNum (Finite (int n)), rest)"
proof -
  obtain c cs where dc: "digits n = c # cs" using digits_nonempty [of n] by (cases "digits n") auto
  have c: "c \<noteq> CHR ''-''" using hd_digits_not_minus [of n] dc by simp
  have tw: "takeWhile is_digit (c # cs @ rest) = c # cs"
    using takeWhile_digits [OF value_end_not_digit [OF assms], of n] dc by simp
  have dw: "dropWhile is_digit (c # cs @ rest) = rest"
    using dropWhile_digits [OF value_end_not_digit [OF assms], of n] dc by simp
  have lead: "\<not> (c = CHR ''0'' \<and> cs \<noteq> [])" using digits_leading [of n] dc by auto
  have frac: "rest \<noteq> [] \<Longrightarrow> hd rest \<noteq> CHR ''.'' \<and> hd rest \<noteq> CHR ''e'' \<and> hd rest \<noteq> CHR ''E''"
    using value_end_not_frac [OF assms] by auto
  have val: "nat_of_digits (c # cs) = n" using nat_of_digits_digits [of n] dc by simp
  show ?thesis
    unfolding parse_number_def dc
    using c lead frac
    by (simp only: append_Cons list.case if_False Let_def prod.case tw dw val) auto
qed

lemma parse_number_neg:
  assumes "value_end rest"
  shows "parse_number (CHR ''-'' # digits n @ rest) = Inr (JNum (Finite (- int n)), rest)"
proof -
  obtain c cs where dc: "digits n = c # cs" using digits_nonempty [of n] by (cases "digits n") auto
  have tw: "takeWhile is_digit (c # cs @ rest) = c # cs"
    using takeWhile_digits [OF value_end_not_digit [OF assms], of n] dc by simp
  have dw: "dropWhile is_digit (c # cs @ rest) = rest"
    using dropWhile_digits [OF value_end_not_digit [OF assms], of n] dc by simp
  have lead: "\<not> (c = CHR ''0'' \<and> cs \<noteq> [])" using digits_leading [of n] dc by auto
  have frac: "rest \<noteq> [] \<Longrightarrow> hd rest \<noteq> CHR ''.'' \<and> hd rest \<noteq> CHR ''e'' \<and> hd rest \<noteq> CHR ''E''"
    using value_end_not_frac [OF assms] by auto
  have val: "nat_of_digits (c # cs) = n" using nat_of_digits_digits [of n] dc by simp
  show ?thesis
    unfolding parse_number_def dc
    using lead frac
    by (simp only: append_Cons list.case if_True Let_def prod.case tw dw val simp_thms) auto
qed

lemma parse_number_toString:
  assumes "value_end rest"
  shows "parse_number (Number_toString (Finite i) @ rest) = Inr (JNum (Finite i), rest)"
proof (cases "i < 0")
  case True
  then show ?thesis
    using parse_number_neg [OF assms, of "nat (- i)"] by (simp add: Number_toString_def)
next
  case False
  then show ?thesis
    using parse_number_nonneg [OF assms, of "nat i"] by (simp add: Number_toString_def)
qed

lemma hexval_hexdigit: "d < 16 \<Longrightarrow> hexval (hexdigit d) = Some d"
  by (auto simp: hexval_def hexdigit_def Let_def)

lemma hexval_zero: "hexval CHR ''0'' = Some 0"
  by (simp add: hexval_def)

lemma hex4_control:
  assumes "m < 32"
  shows "hex4 CHR ''0'' CHR ''0'' (hexdigit (m div 16)) (hexdigit (m mod 16)) = Some m"
proof -
  have "m div 16 < 16" using assms by simp
  then have a: "hexval (hexdigit (m div 16)) = Some (m div 16)" by (rule hexval_hexdigit)
  have b: "hexval (hexdigit (m mod 16)) = Some (m mod 16)" by (rule hexval_hexdigit) simp
  show ?thesis by (simp add: hex4_def hexval_zero a b)
qed

lemma parse_chars_Quote:
  "parse_chars (QuoteJSONChar c @ s) = cons_char c (parse_chars s)"
proof -
  consider (named) "c \<in> {CHR 0x08, CHR 0x09, CHR 0x0A, CHR 0x0C, CHR 0x0D, dquote, backslash}"
    | (ctrl) "c \<notin> {CHR 0x08, CHR 0x09, CHR 0x0A, CHR 0x0C, CHR 0x0D, dquote, backslash}" "(of_char c :: nat) < 32"
    | (plain) "c \<notin> {CHR 0x08, CHR 0x09, CHR 0x0A, CHR 0x0C, CHR 0x0D, dquote, backslash}" "\<not> (of_char c :: nat) < 32"
    by blast
  then show ?thesis
  proof cases
    case named
    then show ?thesis by (auto simp: QuoteJSONChar_def unescape_def)
  next
    case ctrl
    have h: "hex4 CHR ''0'' CHR ''0'' (hexdigit (of_char c div 16)) (hexdigit (of_char c mod 16)) = Some (of_char c)"
      using hex4_control [OF ctrl(2)] .
    from ctrl show ?thesis by (simp add: QuoteJSONChar_def h)
  next
    case plain
    then show ?thesis by (simp add: QuoteJSONChar_def)
  qed
qed

lemma parse_chars_quoted:
  "parse_chars (concat (map QuoteJSONChar s) @ dquote # rest) = Inr (s, rest)"
  by (induction s) (simp_all add: parse_chars_Quote cons_char_def del: parse_chars.simps, simp)

lemma pv_null: "parse_value (Suc n) (''null'' @ rest) = Inr (JNull, rest)"
  by (simp add: is_ws_def)

lemma pv_true: "parse_value (Suc n) (''true'' @ rest) = Inr (JBool True, rest)"
  by (simp add: is_ws_def)

lemma pv_false: "parse_value (Suc n) (''false'' @ rest) = Inr (JBool False, rest)"
  by (simp add: is_ws_def)

lemma pv_string: "parse_value (Suc n) (QuoteJSONString s @ rest) = Inr (JStr s, rest)"
  by (simp add: is_ws_def QuoteJSONString_def parse_chars_quoted del: parse_chars.simps)

lemma is_digit_dispatch:
  assumes "is_digit c"
  shows "\<not> is_ws c" "c \<noteq> CHR ''n''" "c \<noteq> CHR ''t''" "c \<noteq> CHR ''f''" "c \<noteq> dquote"
    "c \<noteq> CHR ''[''" "c \<noteq> CHR ''{''" "c \<noteq> CHR '']''" "c \<noteq> CHR ''}''"
  using assms by (auto simp: is_digit_def is_ws_def)


lemma parse_value_other:
  assumes "\<not> is_ws c" "c \<noteq> CHR ''n''" "c \<noteq> CHR ''t''" "c \<noteq> CHR ''f''" "c \<noteq> dquote"
    "c \<noteq> CHR ''[''" "c \<noteq> CHR ''{''"
  shows "parse_value (Suc n) (c # cs) = parse_number (c # cs)"
  using assms by simp

lemma minus_dispatch:
  "\<not> is_ws CHR ''-''" "CHR ''-'' \<noteq> CHR ''n''" "CHR ''-'' \<noteq> CHR ''t''" "CHR ''-'' \<noteq> CHR ''f''"
  "CHR ''-'' \<noteq> dquote" "CHR ''-'' \<noteq> CHR ''[''" "CHR ''-'' \<noteq> CHR ''{''"
  by (simp_all add: is_ws_def)

lemma Number_toString_head:
  "\<exists>c cs. Number_toString (Finite i) = c # cs \<and> (c = CHR ''-'' \<or> is_digit c)"
proof (cases "i < 0")
  case True
  then show ?thesis by (simp add: Number_toString_def)
next
  case False
  obtain d ds where dd: "digits (nat i) = d # ds"
    using digits_nonempty [of "nat i"] by (cases "digits (nat i)") auto
  then have "is_digit d" using digits_all_digit [of "nat i"] by simp
  with False dd show ?thesis by (simp add: Number_toString_def)
qed

lemma pv_number:
  assumes "value_end rest"
  shows "parse_value (Suc n) (Number_toString (Finite i) @ rest) = Inr (JNum (Finite i), rest)"
proof -
  obtain c cs where t: "Number_toString (Finite i) = c # cs" and c: "c = CHR ''-'' \<or> is_digit c"
    using Number_toString_head by blast
  have "parse_value (Suc n) (c # (cs @ rest)) = parse_number (c # (cs @ rest))"
    using c
  proof
    assume "c = CHR ''-''"
    then show ?thesis using parse_value_other [OF minus_dispatch] by simp
  next
    assume d: "is_digit c"
    show ?thesis
      by (rule parse_value_other) (use is_digit_dispatch [OF d] in simp_all)
  qed
  then show ?thesis
    using parse_number_toString [OF assms, of i] t by simp
qed

lemma stringify_None: "JSON_stringify v = None \<longleftrightarrow> v = JUndefined"
  by (cases v) (auto split: jsnum.splits)

lemma pv_array_empty: "parse_value (Suc n) (''[]'' @ rest) = Inr (JArr [], rest)"
  by (simp add: is_ws_def)

lemma pv_object_empty: "parse_value (Suc n) (''{}'' @ rest) = Inr (JObj [], rest)"
  by (simp add: is_ws_def)

lemma pv_array:
  assumes "skip_ws cs = d # r" "d \<noteq> CHR '']''" "parse_elements n cs = Inr (xs, r1)"
  shows "parse_value (Suc n) (CHR ''['' # cs) = Inr (JArr xs, r1)"
  using assms by (simp add: is_ws_def)

lemma pv_object:
  assumes "skip_ws cs = d # r" "d \<noteq> CHR ''}''" "parse_members n cs = Inr (ps, r1)"
  shows "parse_value (Suc n) (CHR ''{'' # cs) =
         Inr (JObj (foldl (\<lambda>obj (k, v). CreateDataProperty obj k v) [] ps), r1)"
  using assms by (simp add: is_ws_def)

lemma pe_last:
  assumes "parse_value m s = Inr (v, CHR '']'' # rest)"
  shows "parse_elements (Suc m) s = Inr ([v], rest)"
  using assms by (simp add: is_ws_def)

lemma pe_more:
  assumes "parse_value m s = Inr (v, CHR '','' # r1)" "parse_elements m r1 = Inr (vs, r2)"
  shows "parse_elements (Suc m) s = Inr (v # vs, r2)"
  using assms by (simp add: is_ws_def)

lemma pm_last:
  assumes "parse_value m s3 = Inr (v, CHR ''}'' # rest)"
  shows "parse_members (Suc m) (QuoteJSONString k @ CHR '':'' # s3) = Inr ([(k, v)], rest)"
  using assms
  by (simp add: is_ws_def QuoteJSONString_def parse_chars_quoted del: parse_chars.simps)

lemma pm_more:
  assumes "parse_value m s3 = Inr (v, CHR '','' # r1)" "parse_members m r1 = Inr (ps, r2)"
  shows "parse_members (Suc m) (QuoteJSONString k @ CHR '':'' # s3) = Inr ((k, v) # ps, r2)"
  using assms
  by (simp add: is_ws_def QuoteJSONString_def parse_chars_quoted del: parse_chars.simps)

declare parse_value.simps [simp del] parse_elements.simps [simp del] parse_members.simps [simp del]

lemma roundtripsD:
  "roundtrips v \<Longrightarrow> JSON_stringify v = Some t \<Longrightarrow> value_end rest \<Longrightarrow> 2 * length t + 1 \<le> n
   \<Longrightarrow> parse_value n (t @ rest) = Inr (json_clone v, rest)"
  by (simp add: roundtrips_def)

lemma stringify_head:
  assumes "JSON_stringify v = Some t"
  shows "\<exists>c cs. t = c # cs \<and> \<not> is_ws c \<and> c \<noteq> CHR '']'' \<and> c \<noteq> CHR ''}''"
proof (cases v)
  case JUndefined
  with assms show ?thesis by simp
next
  case JNull
  with assms have "t = ''null''" by simp
  then show ?thesis by (simp add: is_ws_def)
next
  case (JBool b)
  with assms have "t = ''true'' \<or> t = ''false''" by (cases b) auto
  then show ?thesis by (auto simp: is_ws_def)
next
  case (JNum x)
  show ?thesis
  proof (cases "\<exists>i. x = Finite i")
    case True
    then obtain i where x: "x = Finite i" by blast
    obtain c cs where t: "Number_toString (Finite i) = c # cs" and c: "c = CHR ''-'' \<or> is_digit c"
      using Number_toString_head by blast
    from c have "\<not> is_ws c \<and> c \<noteq> CHR '']'' \<and> c \<noteq> CHR ''}''"
    proof
      assume "c = CHR ''-''"
      then show ?thesis by (simp add: is_ws_def)
    next
      assume d: "is_digit c"
      show ?thesis using is_digit_dispatch(1,8,9) [OF d] by blast
    qed
    moreover have "t = c # cs" using t assms JNum x by simp
    ultimately show ?thesis by blast
  next
    case False
    with assms JNum have "t = ''null''" by (cases x) auto
    then show ?thesis by (simp add: is_ws_def)
  qed
next
  case (JStr s)
  with assms have "t = dquote # concat (map QuoteJSONChar s) @ [dquote]"
    by (simp add: QuoteJSONString_def)
  then show ?thesis by (simp add: is_ws_def)
next
  case (JArr xs)
  with assms have "t = CHR ''['' # join_comma (SerializeJSONArray xs) @ '']''" by simp
  then show ?thesis by (simp add: is_ws_def)
next
  case (JObj ps)
  with assms have "t = CHR ''{'' # join_comma (SerializeJSONObject ps) @ ''}''" by simp
  then show ?thesis by (simp add: is_ws_def)
qed

lemma value_end_simps [simp]:
  "value_end (CHR '','' # r)" "value_end (CHR '']'' # r)" "value_end (CHR ''}'' # r)"
  by (simp_all add: value_end_def)

lemma parse_elem:
  assumes "roundtrips x" "value_end rest" "2 * length (elem_text x) + 1 \<le> n"
  shows "parse_value n (elem_text x @ rest) = Inr (elem_clone x, rest)"
proof (cases "x = JUndefined")
  case True
  from assms(3) obtain m where "n = Suc m" by (cases n) auto
  with True show ?thesis using pv_null [of m rest] by (simp add: elem_text_def elem_clone_def)
next
  case False
  then obtain t where t: "JSON_stringify x = Some t" using stringify_None [of x] by auto
  with assms False show ?thesis
    using roundtripsD [OF assms(1) t assms(2), of n] by (simp add: elem_text_def elem_clone_def)
qed

lemma elem_text_head:
  "\<exists>c cs. elem_text x = c # cs \<and> \<not> is_ws c \<and> c \<noteq> CHR '']'' \<and> c \<noteq> CHR ''}''"
proof (cases "JSON_stringify x")
  case None
  then show ?thesis by (simp add: elem_text_def is_ws_def)
next
  case (Some t)
  then show ?thesis using stringify_head [OF Some] by (simp add: elem_text_def)
qed

lemma SerializeJSONArray_Cons: "SerializeJSONArray (x # xs) = elem_text x # SerializeJSONArray xs"
  by (simp add: elem_text_def)

lemma json_clone_elements_Cons: "json_clone_elements (x # xs) = elem_clone x # json_clone_elements xs"
  by (simp add: elem_clone_def)

lemma SerializeJSONArray_Nil: "SerializeJSONArray xs = [] \<longleftrightarrow> xs = []"
  by (cases xs) simp_all

declare SerializeJSONArray.simps(2) [simp del] json_clone_elements.simps(2) [simp del]

lemma join_comma_Cons:
  "join_comma (t # ts) = (if ts = [] then t else t @ CHR '','' # join_comma ts)"
  by (cases ts) simp_all

lemma parse_elements_roundtrip:
  assumes "\<forall>x \<in> set xs. roundtrips x" "xs \<noteq> []"
    "2 * length (join_comma (SerializeJSONArray xs)) + 2 \<le> n"
  shows "parse_elements n (join_comma (SerializeJSONArray xs) @ CHR '']'' # rest)
         = Inr (json_clone_elements xs, rest)"
  using assms
proof (induction xs arbitrary: n)
  case Nil
  then show ?case by simp
next
  case (Cons x xs)
  from Cons.prems(3) obtain m where n: "n = Suc m" by (cases n) auto
  have rx: "roundtrips x" using Cons.prems(1) by simp
  show ?case
  proof (cases "xs = []")
    case True
    have fuel: "2 * length (elem_text x) + 1 \<le> m"
      using Cons.prems(3) n True by (simp add: SerializeJSONArray_Cons)
    have "parse_value m (elem_text x @ CHR '']'' # rest) = Inr (elem_clone x, CHR '']'' # rest)"
      by (rule parse_elem [OF rx _ fuel]) simp
    then show ?thesis
      using True n pe_last by (simp add: SerializeJSONArray_Cons json_clone_elements_Cons)
  next
    case False
    let ?J = "join_comma (SerializeJSONArray xs)"
    have len: "length (join_comma (SerializeJSONArray (x # xs))) = length (elem_text x) + 1 + length ?J"
      using False by (simp add: SerializeJSONArray_Cons join_comma_Cons SerializeJSONArray_Nil)
    have fuel1: "2 * length (elem_text x) + 1 \<le> m" using Cons.prems(3) n len by simp
    have fuel2: "2 * length ?J + 2 \<le> m" using Cons.prems(3) n len by simp
    have a: "parse_value m (elem_text x @ CHR '','' # ?J @ CHR '']'' # rest)
          = Inr (elem_clone x, CHR '','' # ?J @ CHR '']'' # rest)"
      by (rule parse_elem [OF rx _ fuel1]) simp
    have b: "parse_elements m (?J @ CHR '']'' # rest) = Inr (json_clone_elements xs, rest)"
      using Cons.IH [OF _ False fuel2] Cons.prems(1) by simp
    have "parse_elements (Suc m) (elem_text x @ CHR '','' # ?J @ CHR '']'' # rest)
          = Inr (elem_clone x # json_clone_elements xs, rest)"
      by (rule pe_more [OF a b])
    then show ?thesis
      using False n
      by (simp add: SerializeJSONArray_Cons json_clone_elements_Cons join_comma_Cons SerializeJSONArray_Nil)
  qed
qed

lemma SerializeJSONObject_skip:
  "snd p = JUndefined \<Longrightarrow> SerializeJSONObject (p # ps) = SerializeJSONObject ps"
  by simp

lemma SerializeJSONObject_keep:
  "JSON_stringify (snd p) = Some t \<Longrightarrow>
   SerializeJSONObject (p # ps) = (QuoteJSONString (fst p) @ CHR '':'' # t) # SerializeJSONObject ps"
  by simp

lemma json_clone_members_skip:
  "snd p = JUndefined \<Longrightarrow> json_clone_members (p # ps) = json_clone_members ps"
  by simp

lemma json_clone_members_keep:
  "snd p \<noteq> JUndefined \<Longrightarrow>
   json_clone_members (p # ps) = (fst p, json_clone (snd p)) # json_clone_members ps"
  by simp

lemma SerializeJSONObject_Nil: "SerializeJSONObject ps = [] \<longleftrightarrow> json_clone_members ps = []"
  by (induction ps) (auto simp: stringify_None split: option.splits)

declare SerializeJSONObject.simps(2) [simp del] json_clone_members.simps(2) [simp del]

lemma parse_members_roundtrip:
  assumes "\<forall>p \<in> set ps. roundtrips (snd p)" "SerializeJSONObject ps \<noteq> []"
    "2 * length (join_comma (SerializeJSONObject ps)) + 2 \<le> n"
  shows "parse_members n (join_comma (SerializeJSONObject ps) @ CHR ''}'' # rest)
         = Inr (json_clone_members ps, rest)"
  using assms
proof (induction ps arbitrary: n)
  case Nil
  then show ?case by simp
next
  case (Cons p ps)
  show ?case
  proof (cases "snd p = JUndefined")
    case True
    then show ?thesis
      using Cons.IH [of n] Cons.prems
      by (simp add: SerializeJSONObject_skip json_clone_members_skip)
  next
    case False
    then obtain t where t: "JSON_stringify (snd p) = Some t"
      using stringify_None [of "snd p"] by auto
    from Cons.prems(3) obtain m where n: "n = Suc m" by (cases n) auto
    have rp: "roundtrips (snd p)" using Cons.prems(1) by simp
    let ?M = "QuoteJSONString (fst p) @ CHR '':'' # t"
    show ?thesis
    proof (cases "SerializeJSONObject ps = []")
      case True
      have fuel: "2 * length t + 1 \<le> m"
        using Cons.prems(3) n True by (simp add: SerializeJSONObject_keep [OF t])
      have "parse_value m (t @ CHR ''}'' # rest) = Inr (json_clone (snd p), CHR ''}'' # rest)"
        by (rule roundtripsD [OF rp t _ fuel]) simp
      then have "parse_members (Suc m) (?M @ CHR ''}'' # rest) = Inr ([(fst p, json_clone (snd p))], rest)"
        using pm_last [of m "t @ CHR ''}'' # rest" "json_clone (snd p)" rest "fst p"] by simp
      then show ?thesis
        using True n False SerializeJSONObject_Nil [of ps]
        by (simp add: SerializeJSONObject_keep [OF t] json_clone_members_keep)
    next
      case False
      let ?J = "join_comma (SerializeJSONObject ps)"
      have len: "length (join_comma (SerializeJSONObject (p # ps))) = length ?M + 1 + length ?J"
        using False by (simp add: SerializeJSONObject_keep [OF t] join_comma_Cons)
      have fuel1: "2 * length t + 1 \<le> m" using Cons.prems(3) n len by simp
      have fuel2: "2 * length ?J + 2 \<le> m" using Cons.prems(3) n len by simp
      have a: "parse_value m (t @ CHR '','' # ?J @ CHR ''}'' # rest)
            = Inr (json_clone (snd p), CHR '','' # ?J @ CHR ''}'' # rest)"
        by (rule roundtripsD [OF rp t _ fuel1]) simp
      have b: "parse_members m (?J @ CHR ''}'' # rest) = Inr (json_clone_members ps, rest)"
        using Cons.IH [OF _ False fuel2] Cons.prems(1) by simp
      have "parse_members (Suc m) (?M @ CHR '','' # ?J @ CHR ''}'' # rest)
            = Inr ((fst p, json_clone (snd p)) # json_clone_members ps, rest)"
        using pm_more [OF a b, of "fst p"] by simp
      then show ?thesis
        using False n \<open>snd p \<noteq> JUndefined\<close>
        by (simp add: SerializeJSONObject_keep [OF t] json_clone_members_keep join_comma_Cons)
    qed
  qed
qed

lemma join_comma_head:
  assumes "ts \<noteq> []" "\<forall>t \<in> set ts. \<exists>c cs. t = c # cs \<and> P c"
  shows "\<exists>c cs. join_comma ts @ r = c # cs \<and> P c"
proof -
  obtain t ts' where ts: "ts = t # ts'" using assms(1) by (cases ts) auto
  then obtain c cs where "t = c # cs" "P c" using assms(2) by auto
  then show ?thesis using ts by (cases ts') auto
qed

lemma SerializeJSONArray_heads:
  "\<forall>t \<in> set (SerializeJSONArray xs). \<exists>c cs. t = c # cs \<and> (\<not> is_ws c \<and> c \<noteq> CHR '']'')"
proof (induction xs)
  case (Cons x xs)
  then show ?case using elem_text_head [of x] by (auto simp: SerializeJSONArray_Cons)
qed simp

lemma SerializeJSONObject_heads:
  "\<forall>t \<in> set (SerializeJSONObject ps). \<exists>c cs. t = c # cs \<and> (\<not> is_ws c \<and> c \<noteq> CHR ''}'')"
proof (induction ps)
  case (Cons p ps)
  show ?case
  proof (cases "JSON_stringify (snd p)")
    case None
    then have "snd p = JUndefined" by (simp add: stringify_None)
    then show ?thesis using Cons by (simp add: SerializeJSONObject_skip)
  next
    case (Some t)
    then show ?thesis using Cons
      by (simp add: SerializeJSONObject_keep [OF Some] QuoteJSONString_def is_ws_def)
  qed
qed simp

lemma roundtrips_all: "roundtrips v"
proof (induction v)
  case JUndefined
  show ?case by (simp add: roundtrips_def)
next
  case JNull
  show ?case unfolding roundtrips_def
  proof (intro allI impI)
    fix n rest t
    assume "JSON_stringify JNull = Some t" and "2 * length t + 1 \<le> n"
    then obtain m where "n = Suc m" "t = ''null''" by (cases n) auto
    then show "parse_value n (t @ rest) = Inr (json_clone JNull, rest)"
      using pv_null [of m rest] by simp
  qed
next
  case (JBool b)
  show ?case unfolding roundtrips_def
  proof (intro allI impI)
    fix n rest t
    assume "JSON_stringify (JBool b) = Some t" and "2 * length t + 1 \<le> n"
    then obtain m where "n = Suc m" "t = (if b then ''true'' else ''false'')" by (cases n) auto
    then show "parse_value n (t @ rest) = Inr (json_clone (JBool b), rest)"
      using pv_true [of m rest] pv_false [of m rest] by (cases b) simp_all
  qed
next
  case (JNum x)
  show ?case unfolding roundtrips_def
  proof (intro allI impI)
    fix n rest t
    assume t: "JSON_stringify (JNum x) = Some t" and e: "value_end rest" and "2 * length t + 1 \<le> n"
    then obtain m where n: "n = Suc m" by (cases n) auto
    show "parse_value n (t @ rest) = Inr (json_clone (JNum x), rest)"
    proof (cases x)
      case (Finite i)
      then show ?thesis using t n pv_number [OF e, of m i] by simp
    qed (use t n pv_null [of m rest] in simp_all)
  qed
next
  case (JStr s)
  show ?case unfolding roundtrips_def
  proof (intro allI impI)
    fix n rest t
    assume "JSON_stringify (JStr s) = Some t" and "2 * length t + 1 \<le> n"
    then obtain m where "n = Suc m" "t = QuoteJSONString s" by (cases n) auto
    then show "parse_value n (t @ rest) = Inr (json_clone (JStr s), rest)"
      using pv_string [of m s rest] by simp
  qed
next
  case (JArr xs)
  show ?case unfolding roundtrips_def
  proof (intro allI impI)
    fix n rest t
    let ?J = "join_comma (SerializeJSONArray xs)"
    assume "JSON_stringify (JArr xs) = Some t" and fuel: "2 * length t + 1 \<le> n"
    then have t: "t = CHR ''['' # ?J @ '']''" by simp
    from fuel obtain m where n: "n = Suc m" by (cases n) auto
    show "parse_value n (t @ rest) = Inr (json_clone (JArr xs), rest)"
    proof (cases "xs = []")
      case True
      then show ?thesis using t n pv_array_empty [of m rest] by simp
    next
      case False
      then have ne: "SerializeJSONArray xs \<noteq> []" by (simp add: SerializeJSONArray_Nil)
      obtain c cs where h: "?J @ CHR '']'' # rest = c # cs" "\<not> is_ws c \<and> c \<noteq> CHR '']''"
        using join_comma_head [OF ne SerializeJSONArray_heads] by blast
      have sk: "skip_ws (?J @ CHR '']'' # rest) = c # cs" using h by simp
      have fuel': "2 * length ?J + 2 \<le> m" using fuel t n by simp
      have pe: "parse_elements m (?J @ CHR '']'' # rest) = Inr (json_clone_elements xs, rest)"
        using parse_elements_roundtrip [OF _ False fuel'] JArr by blast
      show ?thesis
        using pv_array [OF sk _ pe] h(2) t n by simp
    qed
  qed
next
  case (JObj ps)
  show ?case unfolding roundtrips_def
  proof (intro allI impI)
    fix n rest t
    let ?J = "join_comma (SerializeJSONObject ps)"
    assume "JSON_stringify (JObj ps) = Some t" and fuel: "2 * length t + 1 \<le> n"
    then have t: "t = CHR ''{'' # ?J @ ''}''" by simp
    from fuel obtain m where n: "n = Suc m" by (cases n) auto
    have rt: "\<forall>p \<in> set ps. roundtrips (snd p)"
    proof
      fix p assume "p \<in> set ps"
      moreover have "snd p \<in> Basic_BNFs.snds p" by (cases p) simp
      ultimately show "roundtrips (snd p)" using JObj by blast
    qed
    show "parse_value n (t @ rest) = Inr (json_clone (JObj ps), rest)"
    proof (cases "SerializeJSONObject ps = []")
      case True
      then have "json_clone_members ps = []" by (simp add: SerializeJSONObject_Nil)
      then show ?thesis using True t n pv_object_empty [of m rest] by simp
    next
      case False
      obtain c cs where h: "?J @ CHR ''}'' # rest = c # cs" "\<not> is_ws c \<and> c \<noteq> CHR ''}''"
        using join_comma_head [OF False SerializeJSONObject_heads] by blast
      have sk: "skip_ws (?J @ CHR ''}'' # rest) = c # cs" using h by simp
      have fuel': "2 * length ?J + 2 \<le> m" using fuel t n by simp
      have pm: "parse_members m (?J @ CHR ''}'' # rest) = Inr (json_clone_members ps, rest)"
        using parse_members_roundtrip [OF rt False fuel'] .
      show ?thesis
        using pv_object [OF sk _ pm] h(2) t n by simp
    qed
  qed
qed

lemma JSON_parse_stringify:
  assumes "JSON_stringify v = Some t"
  shows "JSON_parse t = Inr (json_clone v)"
proof -
  have "parse_value (2 * length t + 1) (t @ []) = Inr (json_clone v, [])"
    by (rule roundtripsD [OF roundtrips_all assms]) (simp_all add: value_end_def)
  then show ?thesis by (simp add: JSON_parse_def)
qed

subsection \<open>The parser's fuel always suffices\<close>

text \<open>
  Every successful step of the parser consumes input, so the fuel that \<open>JSON_parse\<close>
  hands to \<open>parse_value\<close>, twice the length of the text and one, is never used up.
\<close>

lemma cons_char_Inr: "cons_char c x = Inr (str, r) \<Longrightarrow> \<exists>str'. x = Inr (str', r)"
  by (auto simp: cons_char_def split: sum.splits)

lemma cons_char_fuel: "cons_char c x = Inl OutOfFuel \<Longrightarrow> x = Inl OutOfFuel"
  by (auto simp: cons_char_def split: sum.splits)

lemma parse_chars_shorter: "parse_chars s = Inr (str, r) \<Longrightarrow> length r < length s"
proof (induction s arbitrary: str r rule: length_induct)
  case (1 s)
  show ?case
  proof (cases s)
    case Nil
    with 1(2) show ?thesis by simp
  next
    case (Cons c cs)
    have IH: "\<And>s' str' r'. length s' < length s \<Longrightarrow> parse_chars s' = Inr (str', r') \<Longrightarrow> length r' < length s'"
      using 1(1) by blast
    from 1(2) Cons show ?thesis
      by (auto simp: less_Suc_eq split: if_splits list.splits option.splits
            dest!: cons_char_Inr dest: IH [rotated])
  qed
qed

lemma parse_chars_fuel: "parse_chars s \<noteq> Inl OutOfFuel"
proof (induction s rule: length_induct)
  case (1 s)
  show ?case
  proof (cases s)
    case Nil
    then show ?thesis by simp
  next
    case (Cons c cs)
    have IH: "\<And>s'. length s' < length s \<Longrightarrow> parse_chars s' \<noteq> Inl OutOfFuel"
      using 1 by blast
    show ?thesis
    proof
      assume "parse_chars s = Inl OutOfFuel"
      with Cons IH show False
        by (auto split: if_splits list.splits option.splits dest!: cons_char_fuel)
    qed
  qed
qed


lemma skip_ws_length: "length (skip_ws s) \<le> length s"
  by (induction s) auto

lemma skip_ws_Cons_length: "skip_ws s = c # cs \<Longrightarrow> length cs < length s"
  using skip_ws_length [of s] by simp

lemma strip_prefix_length: "strip_prefix p s = Some r \<Longrightarrow> length r \<le> length s"
  by (induction p s rule: strip_prefix.induct) (auto split: if_splits)

lemma parse_number_shorter: "parse_number s = Inr (v, r) \<Longrightarrow> length r < length s"
proof -
  assume a: "parse_number s = Inr (v, r)"
  have dw: "\<And>t. takeWhile is_digit t \<noteq> [] \<Longrightarrow> length (dropWhile is_digit t) < length t"
  proof -
    fix t :: string
    assume "takeWhile is_digit t \<noteq> []"
    then have "0 < length (takeWhile is_digit t)" by simp
    moreover have "length (takeWhile is_digit t) + length (dropWhile is_digit t) = length t"
      by (metis length_append takeWhile_dropWhile_id)
    ultimately show "length (dropWhile is_digit t) < length t" by linarith
  qed
  show ?thesis
  proof (cases s)
    case Nil
    with a show ?thesis by (simp add: parse_number_def)
  next
    case (Cons c cs)
    show ?thesis
    proof (cases "c = CHR ''-''")
      case True
      with a Cons have "takeWhile is_digit cs \<noteq> []" "r = dropWhile is_digit cs"
        by (auto simp: parse_number_def Let_def split: if_splits)
      then show ?thesis using dw [of cs] Cons by simp
    next
      case False
      with a Cons have "takeWhile is_digit s \<noteq> []" "r = dropWhile is_digit s"
        by (auto simp: parse_number_def Let_def split: if_splits)
      then show ?thesis using dw [of s] by simp
    qed
  qed
qed

lemma parse_number_fuel: "parse_number s \<noteq> Inl OutOfFuel"
  by (auto simp: parse_number_def Let_def split: list.splits if_splits prod.splits)

lemma parse_value_inv:
  assumes "parse_value (Suc n) s = Inr (v, r)"
  shows "\<exists>c cs. skip_ws s = c # cs \<and>
           ((\<exists>p. strip_prefix p cs = Some r) \<or> (\<exists>str. parse_chars cs = Inr (str, r)) \<or>
            (\<exists>d. skip_ws cs = d # r) \<or> (\<exists>xs. parse_elements n cs = Inr (xs, r)) \<or>
            (\<exists>ps. parse_members n cs = Inr (ps, r)) \<or> parse_number (c # cs) = Inr (v, r))"
proof (cases "skip_ws s")
  case Nil
  with assms show ?thesis by (simp add: parse_value.simps)
next
  case (Cons c cs)
  with assms show ?thesis
    by (simp add: parse_value.simps split: if_splits option.splits sum.splits list.splits prod.splits)
       blast+
qed


lemma parse_elements_inv:
  assumes "parse_elements (Suc n) s = Inr (vs, r)"
  shows "\<exists>v r0 c r1. parse_value n s = Inr (v, r0) \<and> skip_ws r0 = c # r1 \<and>
           (r = r1 \<or> (\<exists>vs'. parse_elements n r1 = Inr (vs', r)))"
  using assms
  by (auto simp add: parse_elements.simps split: if_splits sum.splits list.splits prod.splits)

lemma parse_members_inv:
  assumes "parse_members (Suc n) s = Inr (ps, r)"
  shows "\<exists>q s1 k s2 colon s3 v r0 c r1.
           skip_ws s = q # s1 \<and> parse_chars s1 = Inr (k, s2) \<and> skip_ws s2 = colon # s3 \<and>
           parse_value n s3 = Inr (v, r0) \<and> skip_ws r0 = c # r1 \<and>
           (r = r1 \<or> (\<exists>ps'. parse_members n r1 = Inr (ps', r)))"
  using assms
  by (auto simp add: parse_members.simps split: if_splits sum.splits list.splits prod.splits)

lemma parse_shorter:
  "(\<forall>s v r. parse_value n s = Inr (v, r) \<longrightarrow> length r < length s) \<and>
   (\<forall>s vs r. parse_elements n s = Inr (vs, r) \<longrightarrow> length r < length s) \<and>
   (\<forall>s ps r. parse_members n s = Inr (ps, r) \<longrightarrow> length r < length s)"
proof (induction n)
  case 0
  show ?case by (simp add: parse_value.simps parse_elements.simps parse_members.simps)
next
  case (Suc n)
  have V: "\<And>s v r. parse_value n s = Inr (v, r) \<Longrightarrow> length r < length s"
    and E: "\<And>s vs r. parse_elements n s = Inr (vs, r) \<Longrightarrow> length r < length s"
    and M: "\<And>s ps r. parse_members n s = Inr (ps, r) \<Longrightarrow> length r < length s"
    using Suc by blast+
  have v: "length r < length s" if a: "parse_value (Suc n) s = Inr (v, r)" for s v r
  proof -
    obtain c cs where sk: "skip_ws s = c # cs"
      and d: "(\<exists>p. strip_prefix p cs = Some r) \<or> (\<exists>str. parse_chars cs = Inr (str, r)) \<or>
            (\<exists>d. skip_ws cs = d # r) \<or> (\<exists>xs. parse_elements n cs = Inr (xs, r)) \<or>
            (\<exists>ps. parse_members n cs = Inr (ps, r)) \<or> parse_number (c # cs) = Inr (v, r)"
      using parse_value_inv [OF a] by blast
    have l: "length cs < length s" using skip_ws_Cons_length [OF sk] .
    have l2: "Suc (length cs) \<le> length s" using skip_ws_length [of s] sk by simp
    from d consider (a) p where "strip_prefix p cs = Some r"
      | (b) str where "parse_chars cs = Inr (str, r)"
      | (c) d where "skip_ws cs = d # r"
      | (d) xs where "parse_elements n cs = Inr (xs, r)"
      | (e) ps where "parse_members n cs = Inr (ps, r)"
      | (f) "parse_number (c # cs) = Inr (v, r)"
      by blast
    then show ?thesis
    proof cases
      case a then show ?thesis using strip_prefix_length l by fastforce
    next
      case b then show ?thesis using parse_chars_shorter l by fastforce
    next
      case c then show ?thesis using skip_ws_Cons_length l by fastforce
    next
      case d then show ?thesis using E l by fastforce
    next
      case e then show ?thesis using M l by fastforce
    next
      case f then show ?thesis using parse_number_shorter [OF f] l2 by simp
    qed
  qed
  have e: "length r < length s" if a: "parse_elements (Suc n) s = Inr (vs, r)" for s vs r
  proof -
    obtain v r0 c r1 where pv: "parse_value n s = Inr (v, r0)" and sk: "skip_ws r0 = c # r1"
      and d: "r = r1 \<or> (\<exists>vs'. parse_elements n r1 = Inr (vs', r))"
      using parse_elements_inv [OF a] by blast
    have "length r0 < length s" using V [OF pv] .
    moreover have "length r1 < length r0" using skip_ws_Cons_length [OF sk] .
    moreover have "length r \<le> length r1" using d E by fastforce
    ultimately show ?thesis by linarith
  qed
  have m: "length r < length s" if a: "parse_members (Suc n) s = Inr (ps, r)" for s ps r
  proof -
    obtain q s1 k s2 colon s3 v r0 c r1 where
      1: "skip_ws s = q # s1" and 2: "parse_chars s1 = Inr (k, s2)" and
      3: "skip_ws s2 = colon # s3" and 4: "parse_value n s3 = Inr (v, r0)" and
      5: "skip_ws r0 = c # r1" and
      d: "r = r1 \<or> (\<exists>ps'. parse_members n r1 = Inr (ps', r))"
      using parse_members_inv [OF a] by blast
    have "length s1 < length s" using skip_ws_Cons_length [OF 1] .
    moreover have "length s2 < length s1" using parse_chars_shorter [OF 2] .
    moreover have "length s3 < length s2" using skip_ws_Cons_length [OF 3] .
    moreover have "length r0 < length s3" using V [OF 4] .
    moreover have "length r1 < length r0" using skip_ws_Cons_length [OF 5] .
    moreover have "length r \<le> length r1" using d M by fastforce
    ultimately show ?thesis by linarith
  qed
  show ?case using v e m by blast
qed

lemma parse_value_fuel_inv:
  assumes "parse_value (Suc n) s = Inl OutOfFuel"
  shows "\<exists>c cs. skip_ws s = c # cs \<and>
           (parse_chars cs = Inl OutOfFuel \<or> parse_elements n cs = Inl OutOfFuel \<or>
            parse_members n cs = Inl OutOfFuel \<or> parse_number (c # cs) = Inl OutOfFuel)"
  using assms
  by (auto simp add: parse_value.simps split: if_splits option.splits sum.splits list.splits prod.splits)

lemma parse_elements_fuel_inv:
  assumes "parse_elements (Suc n) s = Inl OutOfFuel"
  shows "parse_value n s = Inl OutOfFuel \<or>
         (\<exists>v r0 c r1. parse_value n s = Inr (v, r0) \<and> skip_ws r0 = c # r1 \<and>
            parse_elements n r1 = Inl OutOfFuel)"
  using assms
  by (auto simp add: parse_elements.simps split: if_splits sum.splits list.splits prod.splits)

lemma parse_members_fuel_inv:
  assumes "parse_members (Suc n) s = Inl OutOfFuel"
  shows "\<exists>q s1. skip_ws s = q # s1 \<and>
           (parse_chars s1 = Inl OutOfFuel \<or>
            (\<exists>k s2 colon s3. parse_chars s1 = Inr (k, s2) \<and> skip_ws s2 = colon # s3 \<and>
               (parse_value n s3 = Inl OutOfFuel \<or>
                (\<exists>v r0 c r1. parse_value n s3 = Inr (v, r0) \<and> skip_ws r0 = c # r1 \<and>
                   parse_members n r1 = Inl OutOfFuel))))"
  using assms
  by (auto simp add: parse_members.simps split: if_splits sum.splits list.splits prod.splits)

lemma parse_enough_fuel:
  "(\<forall>s. 2 * length s + 1 \<le> n \<longrightarrow> parse_value n s \<noteq> Inl OutOfFuel) \<and>
   (\<forall>s. 2 * length s + 2 \<le> n \<longrightarrow> parse_elements n s \<noteq> Inl OutOfFuel) \<and>
   (\<forall>s. 2 * length s + 2 \<le> n \<longrightarrow> parse_members n s \<noteq> Inl OutOfFuel)"
proof (induction n)
  case 0
  show ?case by simp
next
  case (Suc n)
  have V: "\<And>s. 2 * length s + 1 \<le> n \<Longrightarrow> parse_value n s \<noteq> Inl OutOfFuel"
    and E: "\<And>s. 2 * length s + 2 \<le> n \<Longrightarrow> parse_elements n s \<noteq> Inl OutOfFuel"
    and M: "\<And>s. 2 * length s + 2 \<le> n \<Longrightarrow> parse_members n s \<noteq> Inl OutOfFuel"
    using Suc by blast+
  have S: "\<And>s v r. parse_value n s = Inr (v, r) \<Longrightarrow> length r < length s"
    using parse_shorter [of n] by blast
  have v: "parse_value (Suc n) s \<noteq> Inl OutOfFuel" if f: "2 * length s + 1 \<le> Suc n" for s
  proof
    assume "parse_value (Suc n) s = Inl OutOfFuel"
    then obtain c cs where sk: "skip_ws s = c # cs"
      and d: "parse_chars cs = Inl OutOfFuel \<or> parse_elements n cs = Inl OutOfFuel \<or>
            parse_members n cs = Inl OutOfFuel \<or> parse_number (c # cs) = Inl OutOfFuel"
      using parse_value_fuel_inv by blast
    have "length cs < length s" using skip_ws_Cons_length [OF sk] .
    then have "2 * length cs + 2 \<le> n" using f by linarith
    then have "parse_elements n cs \<noteq> Inl OutOfFuel" "parse_members n cs \<noteq> Inl OutOfFuel"
      using E M by blast+
    with d show False using parse_chars_fuel parse_number_fuel by blast
  qed
  have e: "parse_elements (Suc n) s \<noteq> Inl OutOfFuel" if f: "2 * length s + 2 \<le> Suc n" for s
  proof
    assume "parse_elements (Suc n) s = Inl OutOfFuel"
    then consider (a) "parse_value n s = Inl OutOfFuel"
      | (b) v r0 c r1 where "parse_value n s = Inr (v, r0)" "skip_ws r0 = c # r1"
          "parse_elements n r1 = Inl OutOfFuel"
      using parse_elements_fuel_inv by blast
    then show False
    proof cases
      case a
      moreover have "2 * length s + 1 \<le> n" using f by linarith
      ultimately show False using V by blast
    next
      case b
      have "length r0 < length s" using S [OF b(1)] .
      moreover have "length r1 < length r0" using skip_ws_Cons_length [OF b(2)] .
      ultimately have "2 * length r1 + 2 \<le> n" using f by linarith
      with b(3) show False using E by blast
    qed
  qed
  have m: "parse_members (Suc n) s \<noteq> Inl OutOfFuel" if f: "2 * length s + 2 \<le> Suc n" for s
  proof
    assume a: "parse_members (Suc n) s = Inl OutOfFuel"
    obtain q s1 where 1: "skip_ws s = q # s1"
      and d: "parse_chars s1 = Inl OutOfFuel \<or>
            (\<exists>k s2 colon s3. parse_chars s1 = Inr (k, s2) \<and> skip_ws s2 = colon # s3 \<and>
               (parse_value n s3 = Inl OutOfFuel \<or>
                (\<exists>v r0 c r1. parse_value n s3 = Inr (v, r0) \<and> skip_ws r0 = c # r1 \<and>
                   parse_members n r1 = Inl OutOfFuel)))"
      using parse_members_fuel_inv [OF a] by (elim exE conjE) (rule that)
    from d parse_chars_fuel obtain k s2 colon s3 where 2: "parse_chars s1 = Inr (k, s2)"
      and 3: "skip_ws s2 = colon # s3"
      and d': "parse_value n s3 = Inl OutOfFuel \<or>
                (\<exists>v r0 c r1. parse_value n s3 = Inr (v, r0) \<and> skip_ws r0 = c # r1 \<and>
                   parse_members n r1 = Inl OutOfFuel)"
      by blast
    have l3: "length s3 < length s"
      using skip_ws_Cons_length [OF 1] parse_chars_shorter [OF 2] skip_ws_Cons_length [OF 3]
      by linarith
    from d' show False
    proof
      assume "parse_value n s3 = Inl OutOfFuel"
      moreover have "2 * length s3 + 1 \<le> n" using f l3 by linarith
      ultimately show False using V by blast
    next
      assume "\<exists>v r0 c r1. parse_value n s3 = Inr (v, r0) \<and> skip_ws r0 = c # r1 \<and>
                   parse_members n r1 = Inl OutOfFuel"
      then obtain v r0 c r1 where 4: "parse_value n s3 = Inr (v, r0)" and 5: "skip_ws r0 = c # r1"
        and 6: "parse_members n r1 = Inl OutOfFuel"
        by blast
      have "length r1 < length s3" using S [OF 4] skip_ws_Cons_length [OF 5] by linarith
      then have "2 * length r1 + 2 \<le> n" using f l3 by linarith
      with 6 show False using M by blast
    qed
  qed
  show ?case using v e m by blast
qed

lemma JSON_parse_fuel: "JSON_parse text \<noteq> Inl OutOfFuel"
proof
  assume a: "JSON_parse text = Inl OutOfFuel"
  have "parse_value (2 * length text + 1) text \<noteq> Inl OutOfFuel"
    using parse_enough_fuel [of "2 * length text + 1"] by simp
  with a show False
    by (auto simp: JSON_parse_def split: sum.splits prod.splits if_splits)
qed

section \<open>Values the codec carries unchanged\<close>

lemma property_order_append: "property_order (xs @ ys) \<Longrightarrow> property_order xs"
proof (induction xs rule: property_order.induct)
  case (3 p q ps)
  then show ?case by simp
qed simp_all

lemma property_order_before_index:
  "property_order (ps @ [(k, v)]) \<Longrightarrow> is_array_index k \<Longrightarrow>
   \<forall>q \<in> set ps. is_array_index (fst q) \<and> nat_of_digits (fst q) < nat_of_digits k"
proof (induction ps)
  case Nil
  show ?case by simp
next
  case (Cons p ps)
  show ?case
  proof (cases ps)
    case Nil
    with Cons.prems show ?thesis by simp
  next
    case (Cons p' ps')
    have tl: "property_order (ps @ [(k, v)])" using Cons.prems(1) Cons by simp
    have all: "\<forall>q \<in> set ps. is_array_index (fst q) \<and> nat_of_digits (fst q) < nat_of_digits k"
      using Cons.IH [OF tl Cons.prems(2)] .
    then have p': "is_array_index (fst p') \<and> nat_of_digits (fst p') < nat_of_digits k"
      using Cons by simp
    then have "is_array_index (fst p) \<and> nat_of_digits (fst p) < nat_of_digits (fst p')"
      using Cons.prems(1) Cons by simp
    with p' have "is_array_index (fst p) \<and> nat_of_digits (fst p) < nat_of_digits k" by simp
    with all show ?thesis by simp
  qed
qed

lemma insert_index_last:
  "\<forall>q \<in> set ps. is_array_index (fst q) \<and> nat_of_digits (fst q) < nat_of_digits k \<Longrightarrow>
   insert_index k v ps = ps @ [(k, v)]"
  by (induction ps) simp_all

lemma CreateDataProperty_fresh:
  assumes "k \<notin> fst ` set ps" and "property_order (ps @ [(k, v)])"
  shows "CreateDataProperty ps k v = ps @ [(k, v)]"
proof (cases "is_array_index k")
  case True
  have "\<forall>q \<in> set ps. is_array_index (fst q) \<and> nat_of_digits (fst q) < nat_of_digits k"
    using property_order_before_index [OF assms(2) True] .
  then show ?thesis using assms(1) True by (simp add: CreateDataProperty_def insert_index_last)
next
  case False
  with assms(1) show ?thesis by (simp add: CreateDataProperty_def)
qed

lemma foldl_CreateDataProperty:
  "distinct (map fst (acc @ ps)) \<Longrightarrow> property_order (acc @ ps) \<Longrightarrow>
   foldl (\<lambda>obj (k, v). CreateDataProperty obj k v) acc ps = acc @ ps"
proof (induction ps arbitrary: acc)
  case Nil
  show ?case by simp
next
  case (Cons p ps)
  obtain k v where p: "p = (k, v)" by (cases p)
  have fresh: "k \<notin> fst ` set acc" using Cons.prems(1) p by auto
  have "property_order ((acc @ [(k, v)]) @ ps)" using Cons.prems(2) p by simp
  then have po: "property_order (acc @ [(k, v)])" by (rule property_order_append)
  have step: "CreateDataProperty acc k v = acc @ [(k, v)]"
    using CreateDataProperty_fresh [OF fresh po] .
  have "foldl (\<lambda>obj (k, v). CreateDataProperty obj k v) (acc @ [(k, v)]) ps = (acc @ [(k, v)]) @ ps"
    using Cons.prems p by (intro Cons.IH) simp_all
  then show ?case using p step by simp
qed

lemma representable_clone:
  "representable v \<Longrightarrow> json_clone v = v"
  "representable_elements xs \<Longrightarrow> json_clone_elements xs = xs"
  "representable_members ps \<Longrightarrow> json_clone_members ps = ps"
proof (induction v and xs and ps rule: representable_representable_elements_representable_members.induct)
  case (4 x)
  then show ?case by (cases x) simp_all
next
  case (7 ps)
  then have "json_clone_members ps = ps" "distinct (map fst ([] @ ps))" "property_order ([] @ ps)"
    by simp_all
  then show ?case using foldl_CreateDataProperty [of "[]" ps] by simp
next
  case (9 x xs)
  then show ?case by (auto simp: json_clone_elements.simps(2))
next
  case (11 p ps)
  then show ?case by (cases p) (auto simp: json_clone_members.simps(2))
qed simp_all

lemma representable_stringify: "representable v \<Longrightarrow> \<exists>t. JSON_stringify v = Some t"
  using stringify_None [of v] by (cases "JSON_stringify v") auto

lemma codec_identity:
  assumes "representable v"
  shows "\<exists>t. JSON_stringify v = Some t \<and> t \<noteq> [] \<and> JSON_parse t = Inr v"
proof -
  obtain t where t: "JSON_stringify v = Some t" using representable_stringify [OF assms] by blast
  have "JSON_parse t = Inr v"
    using JSON_parse_stringify [OF t] representable_clone(1) [OF assms] by simp
  moreover have "t \<noteq> []" using stringify_head [OF t] by auto
  ultimately show ?thesis using t by blast
qed

lemma truthy_js_and: "truthy (js_and a b) = (truthy a \<and> truthy b)"
  by (simp add: js_and_def)

lemma spread_falsy: "\<not> truthy v \<Longrightarrow> spread v = []"
proof (cases v)
  case (JNum x)
  then show ?thesis by (cases x) simp_all
qed simp_all

lemma spread_sk: "spread (js_and sk (JObj [(''SK'', sk)])) = (if truthy sk then [(''SK'', sk)] else [])"
  by (simp add: js_and_def spread_falsy)

lemma get_key_eq: "get_key pk sk = (''PK'', pk) # (if truthy sk then [(''SK'', sk)] else [])"
  by (simp add: get_key_def spread_sk)

lemma put_item_eq:
  "put_item data pk sk =
     (''PK'', pk) # (if truthy sk then [(''SK'', sk)] else [])
       @ [(''JSON'', (case JSON_stringify data of None \<Rightarrow> JUndefined | Some t \<Rightarrow> JStr t))]"
  by (simp add: put_item_def spread_sk)

lemma key_attributes_put_item: "key_attributes (put_item data pk sk) = get_key pk sk"
  by (simp add: put_item_eq get_key_eq key_attributes_def)

section \<open>Properties of cute-dynamo\<close>

subsection \<open>Auxiliary facts\<close>

lemma client_send_Some:
  "client_send send (Some c) cmd st = (case send c cmd (world st) of (r, w) \<Rightarrow> (r, st\<lparr>world := w\<rparr>))"
  by (simp add: client_send_def)

lemma client_send_None: "client_send send None cmd st = (Inl TypeError, st)"
  by (simp add: client_send_def)

lemma get_found:
  assumes "client st = Some c"
    and "send c (GetCommand (process_env (env st) ''DYNAMODB_TABLE'') (get_key pk sk)) (world st)
         = (Inr r, w)"
    and "Item r = Some it"
  shows "get send pk sk st =
     (if truthy (property it ''JSON'') then
        (case JSON_parse (ToString (property it ''JSON'')) of
           Inl e \<Rightarrow> (Inl e, st\<lparr>world := w\<rparr>)
         | Inr v \<Rightarrow> (Inr (JObj (AList.update ''JSON'' v it)), st\<lparr>world := w\<rparr>))
      else (Inr (JObj it), st\<lparr>world := w\<rparr>))"
  using assms by (simp add: get_def client_send_Some)

lemma put_sent:
  assumes "client st = Some c"
  shows "put send data pk sk st =
     (case send c (PutCommand (process_env (env st) ''DYNAMODB_TABLE'') (put_item data pk sk)) (world st)
      of (r, w) \<Rightarrow> (r, st\<lparr>world := w\<rparr>))"
  using assms by (simp add: put_def client_send_Some)

lemma falsy_parse_same:
  assumes "\<not> truthy j" and "JSON_parse (ToString j) = Inr v"
  shows "v = j"
proof (cases j)
  case JUndefined
  have "JSON_parse ''undefined'' = Inl SyntaxError" by code_simp
  with assms JUndefined show ?thesis by simp
next
  case JNull
  have "JSON_parse ''null'' = Inr JNull" by code_simp
  with assms JNull show ?thesis by simp
next
  case (JBool b)
  have "JSON_parse ''false'' = Inr (JBool False)" by code_simp
  with assms JBool show ?thesis by simp
next
  case (JNum x)
  show ?thesis
  proof (cases x)
    case (Finite i)
    have "JSON_parse (Number_toString (Finite 0)) = Inr (JNum (Finite 0))" by code_simp
    with assms JNum Finite show ?thesis by simp
  next
    case NaN
    have "JSON_parse ''NaN'' = Inl SyntaxError" by code_simp
    with assms JNum NaN show ?thesis by (simp add: Number_toString_def)
  qed (use assms JNum in simp_all)
next
  case (JStr s)
  have "JSON_parse [] = Inl SyntaxError" by code_simp
  with assms JStr show ?thesis by simp
qed (use assms in simp_all)

lemma property_Some: "map_of it name = Some j \<Longrightarrow> property it name = j"
  by (simp add: property_def)

lemma property_None: "map_of it name = None \<Longrightarrow> property it name = JUndefined"
  by (simp add: property_def)

subsection \<open>The codec round trip, and put followed by get\<close>



subsection \<open>The sort key attribute of the item that put builds\<close>

text \<open>
  C2. The item that \<open>put\<close> builds has an \<open>SK\<close> attribute exactly when the sort key is
  truthy, and then it holds the sort key; with a falsy sort key (\<open>undefined\<close>, \<open>0\<close>, the
  empty string, ...) the item is the same as with the sort key left out, and has no
  \<open>SK\<close>.
\<close>

theorem put_item_SK_iff_truthy:
  "(''SK'' \<in> fst ` set (put_item v pk sk) \<longleftrightarrow> truthy sk) \<and>
   (truthy sk \<longrightarrow> map_of (put_item v pk sk) ''SK'' = Some sk) \<and>
   (\<not> truthy sk \<longrightarrow> put_item v pk sk = put_item v pk JUndefined) \<and>
   ''SK'' \<notin> fst ` set (put_item v pk JUndefined)"
  by (auto simp: put_item_eq)

theorem put_item_SK_iff_truthy_witness:
  "\<not> truthy (JNum (Finite 0)) \<and>
   put_item (JStr ''x'') (JStr ''K1'') (JNum (Finite 0)) = put_item (JStr ''x'') (JStr ''K1'') JUndefined \<and>
   ''SK'' \<notin> fst ` set (put_item (JStr ''x'') (JStr ''K1'') (JNum (Finite 0))) \<and>
   truthy (JStr ''S1'') \<and>
   map_of (put_item (JStr ''x'') (JStr ''K1'') (JStr ''S1'')) ''SK'' = Some (JStr ''S1'')"
  using put_item_SK_iff_truthy [of "JStr ''x''" "JStr ''K1''" "JNum (Finite 0)"]
    put_item_SK_iff_truthy [of "JStr ''x''" "JStr ''K1''" "JStr ''S1''"]
  by simp

subsection \<open>The order in which init resolves credentials\<close>

text \<open>
  C3, as the code has it. \<open>init\<close> first replaces each field the caller left out by its
  environment variable; on the resulting fields the order is fixed: a truthy
  \<open>identityPoolId\<close> gives the federated credentials, else a truthy \<open>accessKeyId\<close> and
  \<open>secretAccessKey\<close> give the static pair, else \<open>init\<close> throws
  \<open>Error("Insufficient credentials provided")\<close> and leaves the client as it was. A call
  with only a region fails so when the environment sets none of the three credential
  variables. \<open>createDynamoDBClient\<close> resolves in the same order on the fields as
  passed, with no defaults: with only a region it always fails.
\<close>

theorem init_credential_order:
  "(let r = default_param (region opts) (process_env (env st) ''AWS_REGION'');
        ip = default_param (identityPoolId opts) (process_env (env st) ''AWS_IDENTITY_POOL_ID'');
        ak = default_param (accessKeyId opts) (process_env (env st) ''AWS_ACCESS_KEY_ID'');
        sk = default_param (secretAccessKey opts) (process_env (env st) ''AWS_SECRET_ACCESS_KEY'')
    in (truthy ip \<longrightarrow>
          init opts st = (Inr (), st\<lparr>client := Some (DocumentClient_from
            (DynamoDBClient r (fromCognitoIdentityPool r ip)))\<rparr>)) \<and>
       (\<not> truthy ip \<and> truthy ak \<and> truthy sk \<longrightarrow>
          init opts st = (Inr (), st\<lparr>client := Some (DocumentClient_from
            (DynamoDBClient r (StaticCredentials ak sk)))\<rparr>)) \<and>
       (\<not> truthy ip \<and> \<not> (truthy ak \<and> truthy sk) \<longrightarrow>
          init opts st = (Inl (Error ''Insufficient credentials provided''), st))) \<and>
   (env st ''AWS_IDENTITY_POOL_ID'' = None \<and> env st ''AWS_ACCESS_KEY_ID'' = None \<and>
    env st ''AWS_SECRET_ACCESS_KEY'' = None \<longrightarrow>
      init \<lparr>region = x, identityPoolId = JUndefined, accessKeyId = JUndefined,
            secretAccessKey = JUndefined\<rparr> st
        = (Inl (Error ''Insufficient credentials provided''), st)) \<and>
   createDynamoDBClient \<lparr>region = x, identityPoolId = JUndefined, accessKeyId = JUndefined,
            secretAccessKey = JUndefined\<rparr>
        = Inl (Error ''Insufficient credentials provided'') \<and>
   (truthy (identityPoolId opts) \<longrightarrow>
      createDynamoDBClient opts = Inr (DynamoDBClient (region opts)
        (fromCognitoIdentityPool (region opts) (identityPoolId opts)))) \<and>
   (\<not> truthy (identityPoolId opts) \<and> truthy (accessKeyId opts) \<and> truthy (secretAccessKey opts) \<longrightarrow>
      createDynamoDBClient opts = Inr (DynamoDBClient (region opts)
        (StaticCredentials (accessKeyId opts) (secretAccessKey opts)))) \<and>
   (\<not> truthy (identityPoolId opts) \<and>
    \<not> (truthy (accessKeyId opts) \<and> truthy (secretAccessKey opts)) \<longrightarrow>
      createDynamoDBClient opts = Inl (Error ''Insufficient credentials provided''))"
  by (simp add: init_def createDynamoDBClient_def Let_def truthy_js_and default_param_def
        process_env_def)

theorem init_credential_order_witness:
  "init \<lparr>region = JStr ''us-east-1'', identityPoolId = JStr ''us-east-1:exampleId'',
         accessKeyId = JUndefined, secretAccessKey = JUndefined\<rparr>
     \<lparr>client = None, env = Map.empty, world = ()\<rparr>
   = (Inr (), \<lparr>client = Some (DocumentClient_from (DynamoDBClient (JStr ''us-east-1'')
         (fromCognitoIdentityPool (JStr ''us-east-1'') (JStr ''us-east-1:exampleId'')))),
       env = Map.empty, world = ()\<rparr>) \<and>
   init \<lparr>region = JStr ''us-east-1'', identityPoolId = JUndefined,
         accessKeyId = JStr ''AKIAEXAMPLE'', secretAccessKey = JStr ''secret''\<rparr>
     \<lparr>client = None, env = Map.empty, world = ()\<rparr>
   = (Inr (), \<lparr>client = Some (DocumentClient_from (DynamoDBClient (JStr ''us-east-1'')
         (StaticCredentials (JStr ''AKIAEXAMPLE'') (JStr ''secret'')))),
       env = Map.empty, world = ()\<rparr>) \<and>
   init \<lparr>region = JStr ''us-east-1'', identityPoolId = JUndefined,
         accessKeyId = JStr ''AKIAEXAMPLE'', secretAccessKey = JUndefined\<rparr>
     \<lparr>client = None, env = Map.empty, world = ()\<rparr>
   = (Inl (Error ''Insufficient credentials provided''),
      \<lparr>client = None, env = Map.empty, world = ()\<rparr>) \<and>
   init \<lparr>region = JStr ''us-east-1'', identityPoolId = JUndefined,
         accessKeyId = JUndefined, secretAccessKey = JUndefined\<rparr>
     \<lparr>client = None, env = Map.empty, world = ()\<rparr>
   = (Inl (Error ''Insufficient credentials provided''),
      \<lparr>client = None, env = Map.empty, world = ()\<rparr>)"
  using
    init_credential_order [of "\<lparr>region = JStr ''us-east-1'',
        identityPoolId = JStr ''us-east-1:exampleId'', accessKeyId = JUndefined,
        secretAccessKey = JUndefined\<rparr>" "\<lparr>client = None, env = Map.empty, world = ()\<rparr>"]
    init_credential_order [of "\<lparr>region = JStr ''us-east-1'', identityPoolId = JUndefined,
        accessKeyId = JStr ''AKIAEXAMPLE'', secretAccessKey = JStr ''secret''\<rparr>"
        "\<lparr>client = None, env = Map.empty, world = ()\<rparr>"]
    init_credential_order [of "\<lparr>region = JStr ''us-east-1'', identityPoolId = JUndefined,
        accessKeyId = JStr ''AKIAEXAMPLE'', secretAccessKey = JUndefined\<rparr>"
        "\<lparr>client = None, env = Map.empty, world = ()\<rparr>" "JStr ''us-east-1''"]
  by (simp add: Let_def default_param_def process_env_def)

text \<open>
  C3 as stated fails for \<open>init\<close>: called with only a region, it succeeds when the
  environment holds the two static keys.
\<close>

theorem init_region_only_counterexample:
  "init \<lparr>region = JStr ''us-east-1'', identityPoolId = JUndefined, accessKeyId = JUndefined,
         secretAccessKey = JUndefined\<rparr>
     \<lparr>client = None,
      env = [''AWS_ACCESS_KEY_ID'' \<mapsto> ''AKIAEXAMPLE'', ''AWS_SECRET_ACCESS_KEY'' \<mapsto> ''secret''],
      world = ()\<rparr>
   = (Inr (),
      \<lparr>client = Some (DocumentClient_from (DynamoDBClient (JStr ''us-east-1'')
                 (StaticCredentials (JStr ''AKIAEXAMPLE'') (JStr ''secret'')))),
       env = [''AWS_ACCESS_KEY_ID'' \<mapsto> ''AKIAEXAMPLE'', ''AWS_SECRET_ACCESS_KEY'' \<mapsto> ''secret''],
       world = ()\<rparr>)"
  by (simp add: init_def Let_def truthy_js_and default_param_def process_env_def)

subsection \<open>Access before initialisation\<close>

text \<open>
  C4, as the code has it. Before a successful \<open>init\<close> the client handle is
  \<open>undefined\<close>, and \<open>get\<close> and \<open>put\<close> fail with the \<open>TypeError\<close> of reading \<open>send\<close>
  of \<open>undefined\<close>: nothing is sent to the service and the state is unchanged. The code
  has no error of its own for the missing initialisation. The functions of the utility
  module take the client as an argument and fail the same way when it is \<open>undefined\<close>.
\<close>

theorem uninitialised_client_TypeError:
  "(client st = None \<longrightarrow>
      get send pk sk st = (Inl TypeError, st) \<and> put send data pk sk st = (Inl TypeError, st)) \<and>
   util_put send None it st = (Inl TypeError, st) \<and>
   util_get send None key st = (Inl TypeError, st) \<and>
   updateItem send None key ue vs st = (Inl TypeError, st) \<and>
   deleteItem send None key st = (Inl TypeError, st) \<and>
   queryItems send None ke vs st = (Inl TypeError, st) \<and>
   scanTable send None fe vs st = (Inl TypeError, st)"
  by (simp add: get_def put_def util_put_def util_get_def updateItem_def deleteItem_def
        queryItems_def scanTable_def client_send_None)

theorem uninitialised_client_TypeError_witness:
  "put table_send (JStr ''x'') (JStr ''K1'') JUndefined
     \<lparr>client = None, env = [''DYNAMODB_TABLE'' \<mapsto> ''users''], world = (\<lambda>t. Map.empty)\<rparr>
   = (Inl TypeError,
      \<lparr>client = None, env = [''DYNAMODB_TABLE'' \<mapsto> ''users''], world = (\<lambda>t. Map.empty)\<rparr>)"
  using uninitialised_client_TypeError [where send = table_send and data = "JStr ''x''"
      and pk = "JStr ''K1''" and sk = JUndefined
      and st = "\<lparr>client = None, env = [''DYNAMODB_TABLE'' \<mapsto> ''users''],
                 world = (\<lambda>t. Map.empty)\<rparr>"]
  by simp

text \<open>
  C4 as stated fails: \<open>get\<close> before \<open>init\<close> surfaces the null-reference fault, not an
  explicit error that names the missing initialisation.
\<close>

theorem get_before_init_counterexample:
  "get table_send (JStr ''K1'') JUndefined
     \<lparr>client = None, env = [''DYNAMODB_TABLE'' \<mapsto> ''users''], world = (\<lambda>t. Map.empty)\<rparr>
   = (Inl TypeError,
      \<lparr>client = None, env = [''DYNAMODB_TABLE'' \<mapsto> ''users''], world = (\<lambda>t. Map.empty)\<rparr>)"
  by (simp add: get_def client_send_None)

subsection \<open>get on a key with no item\<close>

text \<open>
  C5. When the point lookup finds no item, \<open>get\<close> returns \<open>null\<close> as an ordinary
  result; a rejection by the service is a different outcome, the error itself.
\<close>

theorem get_absent_is_null:
  assumes "client st = Some c"
  shows "(\<forall>r w. send c (GetCommand (process_env (env st) ''DYNAMODB_TABLE'') (get_key pk sk)) (world st)
              = (Inr r, w) \<and> Item r = None
            \<longrightarrow> get send pk sk st = (Inr JNull, st\<lparr>world := w\<rparr>)) \<and>
         (\<forall>e w. send c (GetCommand (process_env (env st) ''DYNAMODB_TABLE'') (get_key pk sk)) (world st)
              = (Inl e, w)
            \<longrightarrow> get send pk sk st = (Inl e, st\<lparr>world := w\<rparr>))"
  using assms by (simp add: get_def client_send_Some)

theorem get_absent_is_null_witness:
  "get table_send (JStr ''K1'') (JStr ''S1'')
     \<lparr>client = Some (DocumentClient_from (DynamoDBClient (JStr ''us-east-1'')
                 (StaticCredentials (JStr ''AKIAEXAMPLE'') (JStr ''secret'')))),
      env = [''DYNAMODB_TABLE'' \<mapsto> ''users''], world = (\<lambda>t. Map.empty)\<rparr>
   = (Inr JNull,
      \<lparr>client = Some (DocumentClient_from (DynamoDBClient (JStr ''us-east-1'')
                 (StaticCredentials (JStr ''AKIAEXAMPLE'') (JStr ''secret'')))),
      env = [''DYNAMODB_TABLE'' \<mapsto> ''users''], world = (\<lambda>t. Map.empty)\<rparr>)"
  using get_absent_is_null [where send = table_send
      and st = "\<lparr>client = Some (DocumentClient_from (DynamoDBClient (JStr ''us-east-1'')
                 (StaticCredentials (JStr ''AKIAEXAMPLE'') (JStr ''secret'')))),
         env = [''DYNAMODB_TABLE'' \<mapsto> ''users''], world = (\<lambda>t. Map.empty)\<rparr>"
      and pk = "JStr ''K1''" and sk = "JStr ''S1''"]
  by simp

subsection \<open>get decodes the JSON attribute\<close>




subsection \<open>Malformed payloads\<close>




subsection \<open>The federated path does not depend on the static keys\<close>

text \<open>
  C8. With a truthy \<open>identityPoolId\<close> (passed, or defaulted from the environment),
  \<open>init\<close> takes the federated path and its outcome is the same whatever the two static
  key fields hold: the client it stores is built from the region and the pool id alone.
  The two client constructors behave the same way.
\<close>

theorem federated_path_ignores_static_keys:
  "(truthy (default_param (identityPoolId opts) (process_env (env st) ''AWS_IDENTITY_POOL_ID'')) \<longrightarrow>
      init (opts\<lparr>accessKeyId := a, secretAccessKey := s\<rparr>) st
        = init (opts\<lparr>accessKeyId := a2, secretAccessKey := s2\<rparr>) st \<and>
      init opts st =
        (let r = default_param (region opts) (process_env (env st) ''AWS_REGION'');
             ip = default_param (identityPoolId opts) (process_env (env st) ''AWS_IDENTITY_POOL_ID'')
         in (Inr (), st\<lparr>client := Some (DocumentClient_from
               (DynamoDBClient r (fromCognitoIdentityPool r ip)))\<rparr>))) \<and>
   (truthy (identityPoolId opts) \<longrightarrow>
      createDynamoDBDocumentClient (opts\<lparr>accessKeyId := a, secretAccessKey := s\<rparr>)
        = createDynamoDBDocumentClient (opts\<lparr>accessKeyId := a2, secretAccessKey := s2\<rparr>) \<and>
      createDynamoDBDocumentClient opts
        = Inr (DocumentClient_from (DynamoDBClient (region opts)
                 (fromCognitoIdentityPool (region opts) (identityPoolId opts)))) \<and>
      createDynamoDBClient (opts\<lparr>accessKeyId := a, secretAccessKey := s\<rparr>)
        = createDynamoDBClient (opts\<lparr>accessKeyId := a2, secretAccessKey := s2\<rparr>) \<and>
      createDynamoDBClient opts
        = Inr (DynamoDBClient (region opts)
                 (fromCognitoIdentityPool (region opts) (identityPoolId opts))))"
  by (simp add: init_def createDynamoDBDocumentClient_def createDynamoDBClient_def Let_def)

theorem federated_path_ignores_static_keys_witness:
  "init \<lparr>region = JStr ''us-east-1'', identityPoolId = JStr ''us-east-1:exampleId'',
         accessKeyId = JStr ''AKIAEXAMPLE'', secretAccessKey = JStr ''secret''\<rparr>
     \<lparr>client = None, env = Map.empty, world = ()\<rparr>
   = init \<lparr>region = JStr ''us-east-1'', identityPoolId = JStr ''us-east-1:exampleId'',
         accessKeyId = JStr ''OTHER'', secretAccessKey = JUndefined\<rparr>
     \<lparr>client = None, env = Map.empty, world = ()\<rparr> \<and>
   createDynamoDBDocumentClient \<lparr>region = JStr ''us-east-1'',
         identityPoolId = JStr ''us-east-1:exampleId'',
         accessKeyId = JStr ''AKIAEXAMPLE'', secretAccessKey = JStr ''secret''\<rparr>
   = Inr (DocumentClient_from (DynamoDBClient (JStr ''us-east-1'')
            (fromCognitoIdentityPool (JStr ''us-east-1'') (JStr ''us-east-1:exampleId''))))"
  using
    federated_path_ignores_static_keys [where opts = "\<lparr>region = JStr ''us-east-1'',
        identityPoolId = JStr ''us-east-1:exampleId'', accessKeyId = JStr ''AKIAEXAMPLE'',
        secretAccessKey = JStr ''secret''\<rparr>"
        and st = "\<lparr>client = None, env = Map.empty, world = ()\<rparr>"
        and a = "JStr ''AKIAEXAMPLE''" and s = "JStr ''secret''"
        and ?a2.0 = "JStr ''OTHER''" and ?s2.0 = JUndefined]
  by (simp add: default_param_def Let_def createDynamoDBDocumentClient_def)

subsection \<open>The shape of the item that put builds\<close>




subsection \<open>The key that get builds from a falsy sort key\<close>

text \<open>
  C10. With a falsy sort key, \<open>get\<close> builds the key \<open>{PK: pk}\<close>, the key of a call with
  the sort key left out, and so behaves as that call does against every service.
\<close>

theorem get_key_falsy:
  assumes "\<not> truthy sk"
  shows "get_key pk sk = [(''PK'', pk)] \<and> get_key pk sk = get_key pk JUndefined \<and>
         get send pk sk st = get send pk JUndefined st"
  using assms by (simp add: get_key_eq get_def)

theorem get_key_falsy_witness:
  "\<not> truthy (JNum (Finite 0)) \<and> get_key (JStr ''K1'') (JNum (Finite 0)) = [(''PK'', JStr ''K1'')] \<and>
   \<not> truthy (JStr []) \<and> get_key (JStr ''K1'') (JStr []) = [(''PK'', JStr ''K1'')] \<and>
   \<not> truthy JNull \<and> get_key (JStr ''K1'') JNull = [(''PK'', JStr ''K1'')] \<and>
   \<not> truthy (JBool False) \<and> get_key (JStr ''K1'') (JBool False) = [(''PK'', JStr ''K1'')]"
proof -
  let ?st = "\<lparr>client = None, env = Map.empty, world = (\<lambda>t. Map.empty)\<rparr> :: tables process"
  have f: "\<not> truthy (JNum (Finite 0))" "\<not> truthy (JStr [])" "\<not> truthy JNull"
    "\<not> truthy (JBool False)"
    by simp_all
  show ?thesis
    using f
      get_key_falsy [OF f(1), where pk = "JStr ''K1''" and send = table_send and st = ?st]
      get_key_falsy [OF f(2), where pk = "JStr ''K1''" and send = table_send and st = ?st]
      get_key_falsy [OF f(3), where pk = "JStr ''K1''" and send = table_send and st = ?st]
      get_key_falsy [OF f(4), where pk = "JStr ''K1''" and send = table_send and st = ?st]
    by simp
qed

end
